theory Spec2Isabelle
  imports Main "HOL-Library.AList"
begin

section \<open>Data model of the extension (src/src/extension.ts)\<close>

text \<open>
  The occurrence objects come from the analysis client. Their numeric fields are
  JavaScript numbers holding integers; they are modelled as unbounded integers, so a
  negative or zero line or column is a well-formed value of the type.
\<close>

record Issue =
  title :: string

record Occurence =
  path :: string
  beginLine :: int
  endLine :: int
  beginColumn :: int
  endColumn :: int
  issue :: Issue

text \<open>
  \<open>vscode.Position\<close>, \<open>vscode.Range\<close> and \<open>vscode.Diagnostic\<close> are classes of the
  editor host. An object is the record of its fields; a \<open>Range\<close> keeps the two positions
  in the order in which the extension passes them to the constructor.
\<close>

record Position =
  line :: int
  character :: int

record Range =
  range_start :: Position
  range_end :: Position

datatype DiagnosticSeverity = Error | Warning | Information | Hint

record Diagnostic =
  diag_range :: Range
  message :: string
  severity :: DiagnosticSeverity

text \<open>
  The constructors of the host raise for arguments they do not accept: \<open>Position\<close> for
  a negative line or a negative character, in this order, and \<open>Diagnostic\<close> for an
  empty message. The exception is the value \<open>Inl\<close>.
\<close>

datatype HostError = IllegalArgument string | TypeError string

definition newPosition :: "int \<Rightarrow> int \<Rightarrow> HostError + Position" where
  "newPosition l c =
     (if l < 0 then Inl (IllegalArgument ''line must be non-negative'')
      else if c < 0 then Inl (IllegalArgument ''character must be non-negative'')
      else Inr \<lparr>line = l, character = c\<rparr>)"

definition newDiagnostic :: "Range \<Rightarrow> string \<Rightarrow> DiagnosticSeverity \<Rightarrow> HostError + Diagnostic" where
  "newDiagnostic r msg sev =
     (if msg = [] then Inl (TypeError ''message must be set'')
      else Inr \<lparr>diag_range = r, message = msg, severity = sev\<rparr>)"

subsection \<open>The JavaScript \<open>Map\<close>\<close>

text \<open>
  A \<open>Map\<close> keeps its keys in insertion order and holds each key once. It is modelled
  as an association list: \<open>set\<close> on a present key replaces the value where it stands,
  \<open>set\<close> on an absent key appends the entry.
\<close>

type_synonym DiagnosticMap = "(string \<times> Diagnostic list) list"

definition map_get :: "('k \<times> 'v) list \<Rightarrow> 'k \<Rightarrow> 'v option" where
  "map_get m k = map_of m k"

definition map_has :: "('k \<times> 'v) list \<Rightarrow> 'k \<Rightarrow> bool" where
  "map_has m k = (map_get m k \<noteq> None)"

definition map_set :: "('k \<times> 'v) list \<Rightarrow> 'k \<Rightarrow> 'v \<Rightarrow> ('k \<times> 'v) list" where
  "map_set m k v = AList.update k v m"

subsection \<open>The file system touched by the JSON dump\<close>

text \<open>
  \<open>existsSync\<close>, \<open>mkdirSync\<close> and \<open>writeFileSync\<close> belong to Node. The file system is
  a list of directories and a table of files; the content of a file written with
  \<open>JSON.stringify(occurrences)\<close> is kept as the occurrence list that was serialised.
\<close>

record FileSystem =
  dirs :: "string list"
  files :: "(string \<times> Occurence list) list"

definition existsSync :: "FileSystem \<Rightarrow> string \<Rightarrow> bool" where
  "existsSync fs p = (p \<in> set (dirs fs) \<or> map_has (files fs) p)"

definition mkdirSync :: "FileSystem \<Rightarrow> string \<Rightarrow> FileSystem" where
  "mkdirSync fs p = fs\<lparr>dirs := dirs fs @ [p]\<rparr>"

definition writeFileSync :: "FileSystem \<Rightarrow> string \<Rightarrow> Occurence list \<Rightarrow> FileSystem" where
  "writeFileSync fs p content = fs\<lparr>files := map_set (files fs) p content\<rparr>"

section \<open>The translator: \<open>prepareDiagnostics\<close>\<close>

text \<open>
  Line 85: the start column handed to the host.
\<close>

definition beginCol :: "Occurence \<Rightarrow> int" where
  "beginCol occurrence =
     (if beginColumn occurrence > 0 then beginColumn occurrence - 1
      else beginColumn occurrence)"

text \<open>
  Lines 83--94 of the loop body: the diagnostic built for one occurrence, or the
  exception of the first constructor that raises.
\<close>

definition diagnosticOf :: "Occurence \<Rightarrow> HostError + Diagnostic" where
  "diagnosticOf occurrence =
     (case newPosition (beginLine occurrence - 1) (beginCol occurrence) of
        Inl e \<Rightarrow> Inl e
      | Inr startPos \<Rightarrow>
          (case newPosition (endLine occurrence - 1) (endColumn occurrence) of
             Inl e \<Rightarrow> Inl e
           | Inr endPos \<Rightarrow>
               newDiagnostic \<lparr>range_start = startPos, range_end = endPos\<rparr>
                 (title (issue occurrence)) Error))"

text \<open>
  The occurrences for which no constructor raises.
\<close>

definition hostAccepts :: "Occurence \<Rightarrow> bool" where
  "hostAccepts occurrence = (\<not> isl (diagnosticOf occurrence))"

text \<open>
  The \<open>for ... of\<close> loop of lines 81--102 over the remaining occurrences, with the map
  under construction as accumulator. An exception in the body ends the loop.
  \<open>diags.push\<close> changes the array that the map holds under \<open>filePath\<close>, which is written
  here as storing the extended array under that key. The \<open>get\<close> is read with \<open>the\<close>, as
  the source's cast does; it runs under \<open>has\<close> only.
\<close>

fun diagnosticLoop :: "DiagnosticMap \<Rightarrow> Occurence list \<Rightarrow> HostError + DiagnosticMap" where
  "diagnosticLoop diagnosticMap [] = Inr diagnosticMap"
| "diagnosticLoop diagnosticMap (occurrence # rest) =
     (let filePath = path occurrence
      in case diagnosticOf occurrence of
           Inl e \<Rightarrow> Inl e
         | Inr diagnostic \<Rightarrow>
             if map_has diagnosticMap filePath
             then (let diags = the (map_get diagnosticMap filePath)
                   in diagnosticLoop (map_set diagnosticMap filePath (diags @ [diagnostic])) rest)
             else diagnosticLoop (map_set diagnosticMap filePath [diagnostic]) rest)"

text \<open>
  \<open>path.join\<close> is Node's and depends on the platform, so the translator takes it as the
  parameter \<open>path_join\<close>. The result is the returned map, or the exception that ended
  the loop, together with the two things the call changes: the occurrences, whose
  \<open>path\<close> fields are overwritten in place (lines 76--79), and the file system. After an
  exception the directory may have been made and the paths are rewritten, but the file
  is not written.
\<close>

definition prepareDiagnostics ::
  "(string \<Rightarrow> string \<Rightarrow> string) \<Rightarrow> string \<Rightarrow> Occurence list \<Rightarrow> FileSystem
     \<Rightarrow> (HostError + DiagnosticMap) \<times> Occurence list \<times> FileSystem" where
  "prepareDiagnostics path_join workspaceDirPath occurrences fs =
     (let jsonDumpDir = path_join workspaceDirPath ''.deepsource'';
          fs1 = (if \<not> existsSync fs jsonDumpDir then mkdirSync fs jsonDumpDir else fs);
          jsonDumpPath = path_join jsonDumpDir ''issues.json'';
          occurrences1 = map (\<lambda>occurrence.
                            occurrence\<lparr>path := path_join workspaceDirPath (path occurrence)\<rparr>)
                          occurrences
      in case diagnosticLoop [] occurrences1 of
           Inl e \<Rightarrow> (Inl e, occurrences1, fs1)
         | Inr diagnosticMap \<Rightarrow>
             (Inr diagnosticMap, occurrences1, writeFileSync fs1 jsonDumpPath occurrences1))"

subsection \<open>Node's \<open>path.join\<close> on POSIX\<close>

text \<open>
  The POSIX variant of Node's \<open>path.join\<close> for two arguments, used where the translator
  is evaluated at concrete paths: the non-empty arguments are joined with a slash and the
  result is normalised (empty segments and \<open>.\<close> are dropped, \<open>..\<close> removes the segment
  before it, a trailing slash is kept).
\<close>

fun splitSegments :: "string \<Rightarrow> string list" where
  "splitSegments [] = [[]]"
| "splitSegments (c # cs) =
     (if c = CHR ''/'' then [] # splitSegments cs
      else (case splitSegments cs of
              [] \<Rightarrow> [[c]]
            | seg # segs \<Rightarrow> (c # seg) # segs))"

fun joinSegments :: "string list \<Rightarrow> string" where
  "joinSegments [] = []"
| "joinSegments [seg] = seg"
| "joinSegments (seg # segs) = seg @ ''/'' @ joinSegments segs"

fun normalizeString :: "bool \<Rightarrow> string list \<Rightarrow> string list \<Rightarrow> string list" where
  "normalizeString allowAboveRoot res [] = res"
| "normalizeString allowAboveRoot res (seg # segs) =
     (if seg = [] \<or> seg = ''.'' then normalizeString allowAboveRoot res segs
      else if seg = ''..'' then
        (if res \<noteq> [] \<and> last res \<noteq> ''..''
         then normalizeString allowAboveRoot (butlast res) segs
         else if allowAboveRoot then normalizeString allowAboveRoot (res @ [''..'']) segs
         else normalizeString allowAboveRoot res segs)
      else normalizeString allowAboveRoot (res @ [seg]) segs)"

definition posix_normalize :: "string \<Rightarrow> string" where
  "posix_normalize p =
     (if p = [] then ''.''
      else
        (let isAbsolute = (hd p = CHR ''/'');
             trailingSeparator = (last p = CHR ''/'');
             q = joinSegments (normalizeString (\<not> isAbsolute) [] (splitSegments p))
         in if q = [] then (if isAbsolute then ''/'' else if trailingSeparator then ''./'' else ''.'')
            else (let q1 = (if trailingSeparator then q @ ''/'' else q)
                  in if isAbsolute then ''/'' @ q1 else q1)))"

definition posix_join :: "string \<Rightarrow> string \<Rightarrow> string" where
  "posix_join a b =
     (let joined = (if a = [] then b else if b = [] then a else a @ ''/'' @ b)
      in if joined = [] then ''.'' else posix_normalize joined)"

section \<open>The repository identity resolver: \<open>getRepoAndUserName\<close>\<close>

text \<open>
  The class \<open>[\w-]\<close> of the regular expression: ASCII letters, digits, the underscore
  and the hyphen.
\<close>

definition isWordOrHyphen :: "char \<Rightarrow> bool" where
  "isWordOrHyphen c =
     (c \<in> set (''abcdefghijklmnopqrstuvwxyz'' @ ''ABCDEFGHIJKLMNOPQRSTUVWXYZ'' @
               ''0123456789'' @ ''_'' @ ''-''))"

text \<open>
  A greedy \<open>+\<close> over a character class, followed by the rest of the pattern as the
  continuation \<open>k\<close>, with the backtracking of a JavaScript regular expression: after
  taking a character the matcher first tries to take more, and falls back to the
  continuation at this point when that fails. \<open>acc\<close> is the text the group has taken.
\<close>

fun plusThen :: "(char \<Rightarrow> bool) \<Rightarrow> (string \<Rightarrow> string \<Rightarrow> 'a option) \<Rightarrow> string \<Rightarrow> string \<Rightarrow> 'a option" where
  "plusThen P k acc [] = None"
| "plusThen P k acc (c # cs) =
     (if P c
      then (case plusThen P k (acc @ [c]) cs of
              Some r \<Rightarrow> Some r
            | None \<Rightarrow> k (acc @ [c]) cs)
      else None)"

text \<open>
  The pattern \<open>/([\w-]+)\/([\w-]+)\.git/\<close> tried at the start of \<open>s\<close>. A match is the
  array of the matched text and the two groups.
\<close>

definition matchAt :: "string \<Rightarrow> string list option" where
  "matchAt s =
     plusThen isWordOrHyphen
       (\<lambda>g1 r1. case r1 of
                  [] \<Rightarrow> None
                | c # r2 \<Rightarrow>
                    if c = CHR ''/''
                    then plusThen isWordOrHyphen
                           (\<lambda>g2 r3. if take 4 r3 = ''.git''
                                     then Some [g1 @ ''/'' @ g2 @ ''.git'', g1, g2]
                                     else None)
                           [] r2
                    else None)
       [] s"

text \<open>
  \<open>remoteUrl.match(regex)\<close> for this pattern, which has no flags: the first start
  position, from the left, at which the pattern matches.
\<close>

fun regexMatch :: "string \<Rightarrow> string list option" where
  "regexMatch [] = matchAt []"
| "regexMatch (c # cs) =
     (case matchAt (c # cs) of
        Some matches \<Rightarrow> Some matches
      | None \<Rightarrow> regexMatch cs)"

text \<open>
  What \<open>simple-git\<close> reports about the directory: whether it is a repository, and the
  value of \<open>remote.origin.url\<close> (\<open>null\<close> when it is not configured).
\<close>

record GitRepo =
  isRepo :: bool
  remote_origin_url :: "string option"

datatype RepoInfo = RepoInfo (info_userName: string) (info_repoName: string)

definition getRepoAndUserName :: "GitRepo \<Rightarrow> RepoInfo option" where
  "getRepoAndUserName gitRepo =
     (if \<not> isRepo gitRepo then None
      else (case remote_origin_url gitRepo of
              None \<Rightarrow> None
            | Some remoteUrl \<Rightarrow>
                (case regexMatch remoteUrl of
                   None \<Rightarrow> None
                 | Some matches \<Rightarrow>
                     if length matches = 3
                     then Some (RepoInfo (matches ! 1) (matches ! 2))
                     else None)))"

section \<open>Session state and the handlers registered by \<open>activate\<close>\<close>

subsection \<open>The credential store\<close>

text \<open>
  The store is the \<open>vscode-cache\<close> object created in \<open>activate\<close>. Its five operations
  are modelled as the key-value store that the specification's contract of the
  credential store describes: \<open>has\<close>, \<open>get\<close>, \<open>put\<close>, \<open>forget\<close>, \<open>flush\<close>.
\<close>

type_synonym Cache = "(string \<times> string) list"

definition cache_has :: "Cache \<Rightarrow> string \<Rightarrow> bool" where
  "cache_has c k = map_has c k"

definition cache_get :: "Cache \<Rightarrow> string \<Rightarrow> string option" where
  "cache_get c k = map_get c k"

definition cache_put :: "Cache \<Rightarrow> string \<Rightarrow> string \<Rightarrow> Cache" where
  "cache_put c k v = map_set c k v"

definition cache_forget :: "Cache \<Rightarrow> string \<Rightarrow> Cache" where
  "cache_forget c k = AList.delete k c"

definition cache_flush :: "Cache \<Rightarrow> Cache" where
  "cache_flush c = []"

subsection \<open>State\<close>

text \<open>
  What the user sees, in the order it is shown: the token input box and the two kinds
  of notification.
\<close>

datatype UiEvent =
  ShowInputBox
| ShowErrorMessage string
| ShowInformationMessage string

record Uri =
  uri_text :: string
  fsPath :: string

record TextEditor =
  document_uri :: Uri

text \<open>
  The module-level variables \<open>deepSource\<close>, \<open>userName\<close>, \<open>repoName\<close> and
  \<open>diagnosticsInFile\<close>, the objects \<open>cache\<close> and \<open>diagnosticCollection\<close> that
  \<open>activate\<close> creates, the log of what was shown to the user, and the file system.
  The client handle \<open>new DeepSource(token)\<close> is kept as the token it was built from;
  \<open>None\<close> is \<open>undefined\<close>.
\<close>

record Session =
  deepSource :: "string option"
  userName :: "string option"
  repoName :: "string option"
  diagnosticsInFile :: DiagnosticMap
  cache :: Cache
  diagnosticCollection :: "(Uri \<times> Diagnostic list) list"
  shown :: "UiEvent list"
  fileSystem :: FileSystem

text \<open>
  The analysis client's \<open>getAllIssuesInRepo\<close>, as a function of the token of the
  handle, the repository name and the account name; \<open>None\<close> is the \<open>null\<close> result.
\<close>

type_synonym AnalysisClient = "string \<Rightarrow> string \<Rightarrow> string \<Rightarrow> Occurence list option"

subsection \<open>\<open>fetchAnalysisReport\<close> and \<open>calculateDiagnostics\<close>\<close>

text \<open>
  The guard \<open>deepSource && userName && repoName\<close> is a truthiness test: an object is
  truthy, a string is truthy when it is not empty.
\<close>

definition fetchAnalysisReport :: "AnalysisClient \<Rightarrow> Session \<Rightarrow> Occurence list option \<times> Session" where
  "fetchAnalysisReport getAllIssuesInRepo s =
     (case (deepSource s, userName s, repoName s) of
        (Some token, Some user, Some repo) \<Rightarrow>
          if user = [] \<or> repo = [] then (None, s)
          else (case getAllIssuesInRepo token repo user of
                  None \<Rightarrow>
                    (None,
                     s\<lparr>shown := shown s @
                        [ShowErrorMessage
                           (''Unable to fetch data for repository: '' @ repo @
                            '', under account '' @ [CHR 0x22] @ user @ [CHR 0x22] @ ''.'' @
                            [CHR 0x0A] @
                            ''Please ensure analysis is activated on https://deepsource.com.'')]\<rparr>)
                | Some allIssuesInRepo \<Rightarrow> (Some allIssuesInRepo, s))
      | _ \<Rightarrow> (None, s))"

text \<open>
  The promise of \<open>calculateDiagnostics\<close> resolves to a boolean, or is rejected with the
  exception that \<open>prepareDiagnostics\<close> raised; then neither the diagnostic map is
  assigned nor the success notification shown.
\<close>

definition calculateDiagnostics ::
  "AnalysisClient \<Rightarrow> (string \<Rightarrow> string \<Rightarrow> string) \<Rightarrow> string \<Rightarrow> Session
     \<Rightarrow> (HostError + bool) \<times> Session" where
  "calculateDiagnostics getAllIssuesInRepo path_join workspaceDirPath s =
     (case fetchAnalysisReport getAllIssuesInRepo s of
        (None, s1) \<Rightarrow> (Inr False, s1)
      | (Some occurrences, s1) \<Rightarrow>
          (case prepareDiagnostics path_join workspaceDirPath occurrences (fileSystem s1) of
             (Inl e, occurrences1, fs1) \<Rightarrow> (Inl e, s1\<lparr>fileSystem := fs1\<rparr>)
           | (Inr diagnosticMap, occurrences1, fs1) \<Rightarrow>
               (Inr True,
                s1\<lparr>diagnosticsInFile := diagnosticMap,
                   fileSystem := fs1,
                   shown := shown s1 @
                     [ShowInformationMessage ''Successfully fetched issues from deepsource.io'']\<rparr>)))"

subsection \<open>The command \<open>extension.getAnalysisReport\<close>\<close>

text \<open>
  One invocation of the command, run to its end. \<open>pat\<close> is what the input box yields
  if it is shown: \<open>None\<close> when the user dismisses it. The test \<open>!pat\<close> also rejects the
  empty string. The callback that forgets the token runs when the promise of
  \<open>calculateDiagnostics\<close> resolves, not when it is rejected.
\<close>

definition getAnalysisReport ::
  "AnalysisClient \<Rightarrow> (string \<Rightarrow> string \<Rightarrow> string) \<Rightarrow> string \<Rightarrow> string option \<Rightarrow> Session \<Rightarrow> Session" where
  "getAnalysisReport getAllIssuesInRepo path_join workspaceDirPath pat s =
     (if deepSource s \<noteq> None
      then snd (calculateDiagnostics getAllIssuesInRepo path_join workspaceDirPath s)
      else if cache_has (cache s) ''personal-access-token''
      then (let accessToken = the (cache_get (cache s) ''personal-access-token'');
                s1 = s\<lparr>deepSource := Some accessToken\<rparr>;
                s2 = s1\<lparr>cache := cache_put (cache s1) ''personal-access-token'' accessToken\<rparr>
            in snd (calculateDiagnostics getAllIssuesInRepo path_join workspaceDirPath s2))
      else (let s1 = s\<lparr>shown := shown s @ [ShowInputBox]\<rparr>
            in case pat of
                 None \<Rightarrow> s1
               | Some token \<Rightarrow>
                   if token = [] then s1
                   else (let s2 = s1\<lparr>deepSource := Some token\<rparr>;
                             s3 = s2\<lparr>cache := cache_put (cache s2) ''personal-access-token'' token\<rparr>
                         in case calculateDiagnostics getAllIssuesInRepo path_join
                                   workspaceDirPath s3 of
                              (Inl e, s4) \<Rightarrow> s4
                            | (Inr success, s4) \<Rightarrow>
                                if \<not> success
                                then s4\<lparr>cache := cache_forget (cache s4) ''personal-access-token'',
                                        shown := shown s4 @
                                          [ShowErrorMessage ''Incorrect personal access token.'']\<rparr>
                                else s4)))"

subsection \<open>The listener of \<open>onDidChangeActiveTextEditor\<close>\<close>

definition onDidChangeActiveTextEditor :: "TextEditor option \<Rightarrow> Session \<Rightarrow> Session" where
  "onDidChangeActiveTextEditor editor s =
     (case editor of
        None \<Rightarrow> s
      | Some e \<Rightarrow>
          (let filePath = fsPath (document_uri e);
               s1 = s\<lparr>diagnosticCollection := []\<rparr>
           in if map_has (diagnosticsInFile s1) filePath
              then s1\<lparr>diagnosticCollection :=
                        map_set (diagnosticCollection s1) (document_uri e)
                          (the (map_get (diagnosticsInFile s1) filePath))\<rparr>
              else s1))"

subsection \<open>\<open>activate\<close> and the runs of a session\<close>

text \<open>
  \<open>activate\<close> refuses a workspace without a path, flushes the credential store and
  starts with no client handle, an empty diagnostic map and an empty diagnostic
  collection. The repository identity is the result of \<open>getRepoAndUserName\<close>, whose
  promise is taken as settled before the first command. The second command,
  \<open>extension.openAuditTui\<close>, only opens a terminal and touches none of this state.
\<close>

datatype ActivationError = UnresolvedWorkspacePath

definition activate ::
  "string option \<Rightarrow> GitRepo \<Rightarrow> Cache \<Rightarrow> FileSystem \<Rightarrow> ActivationError + Session" where
  "activate workspaceDirPath gitRepo storedCache fs0 =
     (case workspaceDirPath of
        None \<Rightarrow> Inl UnresolvedWorkspacePath
      | Some dir \<Rightarrow>
          if dir = [] then Inl UnresolvedWorkspacePath
          else Inr \<lparr>deepSource = None,
                    userName = map_option info_userName (getRepoAndUserName gitRepo),
                    repoName = map_option info_repoName (getRepoAndUserName gitRepo),
                    diagnosticsInFile = [],
                    cache = cache_flush storedCache,
                    diagnosticCollection = [],
                    shown = [],
                    fileSystem = fs0\<rparr>)"

text \<open>
  The events the host delivers after activation, one at a time: an invocation of the
  fetch command, with the answer to the input box and the analysis service as it
  responds then, and a change of the active editor.
\<close>

datatype Event =
  CommandGetAnalysisReport "string option" AnalysisClient
| ActiveTextEditorChanged "TextEditor option"

fun handleEvent :: "(string \<Rightarrow> string \<Rightarrow> string) \<Rightarrow> string \<Rightarrow> Event \<Rightarrow> Session \<Rightarrow> Session" where
  "handleEvent path_join workspaceDirPath (CommandGetAnalysisReport pat client) s =
     getAnalysisReport client path_join workspaceDirPath pat s"
| "handleEvent path_join workspaceDirPath (ActiveTextEditorChanged editor) s =
     onDidChangeActiveTextEditor editor s"

fun runEvents :: "(string \<Rightarrow> string \<Rightarrow> string) \<Rightarrow> string \<Rightarrow> Event list \<Rightarrow> Session \<Rightarrow> Session" where
  "runEvents path_join workspaceDirPath [] s = s"
| "runEvents path_join workspaceDirPath (ev # evs) s =
     runEvents path_join workspaceDirPath evs (handleEvent path_join workspaceDirPath ev s)"

section \<open>The shapes of a remote URL\<close>

text \<open>
  The rule of the specification for the remote URL (section 4.1, item 3), following its
  words: the final two path segments before an optional \<open>.git\<close> suffix, each composed
  of word characters or hyphens, are the account and the repository. It is compared
  with \<open>getRepoAndUserName\<close> below.
\<close>

definition spec_accountAndRepo :: "string \<Rightarrow> (string \<times> string) option" where
  "spec_accountAndRepo url =
     (let stem = (if 4 \<le> length url \<and> drop (length url - 4) url = ''.git''
                  then take (length url - 4) url else url);
          segs = splitSegments stem
      in if 2 \<le> length segs
            \<and> segs ! (length segs - 2) \<noteq> [] \<and> last segs \<noteq> []
            \<and> list_all isWordOrHyphen (segs ! (length segs - 2))
            \<and> list_all isWordOrHyphen (last segs)
         then Some (segs ! (length segs - 2), last segs)
         else None)"

text \<open>
  An occurrence of the pattern in a URL: the URL is \<open>pre\<close>, then \<open>user/repo.git\<close> with
  both names non-empty and made of word characters or hyphens, then \<open>post\<close>.
\<close>

definition urlShape :: "string \<Rightarrow> string \<Rightarrow> string \<Rightarrow> string \<Rightarrow> string \<Rightarrow> bool" where
  "urlShape url pre user repo post =
    (url = pre @ user @ ''/'' @ repo @ ''.git'' @ post
     \<and> user \<noteq> [] \<and> repo \<noteq> []
     \<and> list_all isWordOrHyphen user \<and> list_all isWordOrHyphen repo)"

section \<open>Sample inputs\<close>

text \<open>
  The occurrence of the specification's scenario, in the workspace \<open>/repo\<close>, its
  diagnostic, and a file system in which the workspace directory exists.
\<close>

abbreviation unusedImport :: Occurence where
  "unusedImport \<equiv>
     \<lparr>path = ''a.py'', beginLine = 5, endLine = 5, beginColumn = 3, endColumn = 10,
      issue = \<lparr>title = ''Unused import''\<rparr>\<rparr>"

abbreviation unusedImportDiagnostic :: Diagnostic where
  "unusedImportDiagnostic \<equiv>
     \<lparr>diag_range = \<lparr>range_start = \<lparr>line = 4, character = 2\<rparr>,
                     range_end = \<lparr>line = 4, character = 10\<rparr>\<rparr>,
      message = ''Unused import'', severity = Error\<rparr>"

abbreviation repoFs :: FileSystem where
  "repoFs \<equiv> \<lparr>dirs = [''/repo''], files = []\<rparr>"

text \<open>
  The session right after activation in a repository \<open>user/repo\<close>, and an analysis
  service that knows the token \<open>good\<close> only.
\<close>

abbreviation freshSession :: Session where
  "freshSession \<equiv>
     \<lparr>deepSource = None, userName = Some ''user'', repoName = Some ''repo'',
      diagnosticsInFile = [], cache = [], diagnosticCollection = [], shown = [],
      fileSystem = repoFs\<rparr>"

abbreviation tokenChecker :: AnalysisClient where
  "tokenChecker \<equiv> (\<lambda>token repo user. if token = ''good'' then Some [unusedImport] else None)"

section \<open>Properties of the translator\<close>

subsection \<open>What the host accepts\<close>

lemma hostAccepts_iff:
  "hostAccepts occ \<longleftrightarrow>
     1 \<le> beginLine occ \<and> 0 \<le> beginColumn occ \<and> 1 \<le> endLine occ \<and> 0 \<le> endColumn occ
     \<and> title (issue occ) \<noteq> []"
  by (auto simp: hostAccepts_def diagnosticOf_def newPosition_def newDiagnostic_def beginCol_def)

lemma diagnosticOf_accepted:
  "hostAccepts occ \<Longrightarrow>
   diagnosticOf occ =
     Inr \<lparr>diag_range =
            \<lparr>range_start = \<lparr>line = beginLine occ - 1, character = beginCol occ\<rparr>,
             range_end = \<lparr>line = endLine occ - 1, character = endColumn occ\<rparr>\<rparr>,
          message = title (issue occ), severity = Error\<rparr>"
  by (auto simp: hostAccepts_def diagnosticOf_def newPosition_def newDiagnostic_def
      split: if_splits)

lemma diagnosticOf_Inr_accepted: "diagnosticOf occ = Inr d \<Longrightarrow> hostAccepts occ"
  by (simp add: hostAccepts_def)

lemma diagnosticOf_path_update: "diagnosticOf (occ\<lparr>path := q\<rparr>) = diagnosticOf occ"
  by (simp add: diagnosticOf_def beginCol_def split: sum.splits)

lemma hostAccepts_path_update: "hostAccepts (occ\<lparr>path := q\<rparr>) = hostAccepts occ"
  by (simp add: hostAccepts_def diagnosticOf_path_update)

subsection \<open>Auxiliary facts about the map operations and the loop\<close>

lemma map_get_map_set: "map_get (map_set m k v) k' = (if k' = k then Some v else map_get m k')"
  by (simp add: map_get_def map_set_def update_conv')

lemma diagnosticLoop_step:
  "diagnosticOf a = Inr d \<Longrightarrow>
   diagnosticLoop m (a # occs) =
     diagnosticLoop (map_set m (path a)
        (case map_get m (path a) of None \<Rightarrow> [d] | Some ds \<Rightarrow> ds @ [d])) occs"
  by (auto simp: map_has_def Let_def)

lemma diagnosticLoop_rejected:
  "occ \<in> set occs \<Longrightarrow> \<not> hostAccepts occ \<Longrightarrow> isl (diagnosticLoop m occs)"
proof (induction occs arbitrary: m)
  case Nil
  then show ?case by simp
next
  case (Cons a occs)
  show ?case
  proof (cases "diagnosticOf a")
    case (Inl e)
    then show ?thesis by (simp add: Let_def)
  next
    case (Inr d)
    then have "hostAccepts a" by (rule diagnosticOf_Inr_accepted)
    with Cons.prems have "occ \<in> set occs" by auto
    then have "isl (diagnosticLoop (map_set m (path a)
        (case map_get m (path a) of None \<Rightarrow> [d] | Some ds \<Rightarrow> ds @ [d])) occs)"
      using Cons.prems(2) by (rule Cons.IH)
    then show ?thesis
      by (simp only: diagnosticLoop_step[OF Inr])
  qed
qed

lemma diagnosticLoop_accepted:
  "\<forall>occ\<in>set occs. hostAccepts occ \<Longrightarrow> \<exists>m'. diagnosticLoop m occs = Inr m'"
proof (induction occs arbitrary: m)
  case Nil
  then show ?case by simp
next
  case (Cons a occs)
  then have "hostAccepts a" by simp
  then obtain d where d: "diagnosticOf a = Inr d"
    using diagnosticOf_accepted by blast
  from Cons.prems have "\<forall>occ\<in>set occs. hostAccepts occ" by simp
  then have "\<exists>m'. diagnosticLoop (map_set m (path a)
        (case map_get m (path a) of None \<Rightarrow> [d] | Some ds \<Rightarrow> ds @ [d])) occs = Inr m'"
    by (rule Cons.IH)
  then show ?case
    by (simp only: diagnosticLoop_step[OF d])
qed

lemma diagnosticLoop_Inr_accepted:
  "diagnosticLoop m occs = Inr m' \<Longrightarrow> \<forall>occ\<in>set occs. hostAccepts occ"
  using diagnosticLoop_rejected[of _ occs m] by auto

lemma diagnosticLoop_get:
  "diagnosticLoop m occs = Inr m' \<Longrightarrow>
   map_get m' p =
     (case map_get m p of
        None \<Rightarrow> (if filter (\<lambda>x. path x = p) occs = [] then None
                  else Some (map (\<lambda>x. projr (diagnosticOf x)) (filter (\<lambda>x. path x = p) occs)))
      | Some ds \<Rightarrow> Some (ds @ map (\<lambda>x. projr (diagnosticOf x)) (filter (\<lambda>x. path x = p) occs)))"
proof (induction occs arbitrary: m)
  case Nil
  then show ?case by (simp split: option.splits)
next
  case (Cons a occs)
  from Cons.prems obtain d where d: "diagnosticOf a = Inr d"
    by (cases "diagnosticOf a") (simp_all add: Let_def)
  from Cons.prems have "diagnosticLoop (map_set m (path a)
        (case map_get m (path a) of None \<Rightarrow> [d] | Some ds \<Rightarrow> ds @ [d])) occs = Inr m'"
    by (simp only: diagnosticLoop_step[OF d])
  from Cons.IH[OF this] show ?case
    by (auto simp: map_get_map_set d split: option.splits)
qed

lemma sum_update_Some:
  "map_of m k = Some ds \<Longrightarrow>
   sum_list (map (\<lambda>e. length (snd e)) (AList.update k v m)) + length ds =
   sum_list (map (\<lambda>e. length (snd e)) m) + length v"
  by (induction m) (auto split: if_splits)

lemma sum_update_None:
  "map_of m k = None \<Longrightarrow>
   sum_list (map (\<lambda>e. length (snd e)) (AList.update k v m)) =
   sum_list (map (\<lambda>e. length (snd e)) m) + length v"
  by (induction m) (auto split: if_splits)

lemma diagnosticLoop_count:
  "diagnosticLoop m occs = Inr m' \<Longrightarrow>
   sum_list (map (\<lambda>e. length (snd e)) m') =
   sum_list (map (\<lambda>e. length (snd e)) m) + length occs"
proof (induction occs arbitrary: m)
  case Nil
  then show ?case by simp
next
  case (Cons a occs)
  from Cons.prems obtain d where d: "diagnosticOf a = Inr d"
    by (cases "diagnosticOf a") (simp_all add: Let_def)
  from Cons.prems have run: "diagnosticLoop (map_set m (path a)
        (case map_get m (path a) of None \<Rightarrow> [d] | Some ds \<Rightarrow> ds @ [d])) occs = Inr m'"
    by (simp only: diagnosticLoop_step[OF d])
  show ?case
  proof (cases "map_of m (path a)")
    case None
    then show ?thesis
      using sum_update_None[OF None, of "[d]"] Cons.IH[OF run]
      by (simp add: map_get_def map_set_def)
  next
    case (Some ds)
    then show ?thesis
      using sum_update_Some[OF Some, of "ds @ [d]"] Cons.IH[OF run]
      by (simp add: map_get_def map_set_def)
  qed
qed



lemma prepareDiagnostics_fst:
  "fst (prepareDiagnostics j root occs fs) =
   diagnosticLoop [] (map (\<lambda>occ. occ\<lparr>path := j root (path occ)\<rparr>) occs)"
  by (simp add: prepareDiagnostics_def Let_def split: sum.splits)

lemma prepareDiagnostics_occurrences:
  "fst (snd (prepareDiagnostics j root occs fs)) =
   map (\<lambda>occ. occ\<lparr>path := j root (path occ)\<rparr>) occs"
  by (simp add: prepareDiagnostics_def Let_def split: sum.splits)



lemma prepareDiagnostics_Inr_accepted:
  "fst (prepareDiagnostics j root occs fs) = Inr m \<Longrightarrow> \<forall>occ\<in>set occs. hostAccepts occ"
  unfolding prepareDiagnostics_fst
  by (drule diagnosticLoop_Inr_accepted) (simp add: hostAccepts_path_update)




subsection \<open>Ranges\<close>



subsection \<open>Message and severity\<close>



subsection \<open>Entries of the map\<close>



subsection \<open>Occurrences of one file\<close>



subsection \<open>Negative begin columns\<close>

text \<open>
  C10, amended. For an occurrence whose \<open>beginColumn\<close> is negative the guard of line
  85 does not decrement: the start column handed to \<open>Position\<close> is the \<open>beginColumn\<close>
  itself. The host rejects it (or, before it, the line, when \<open>beginLine\<close> is less than
  1), so no diagnostic is built for the occurrence, and a call of \<open>prepareDiagnostics\<close>
  on a list that holds such an occurrence raises and returns no map.
\<close>

theorem prepareDiagnostics_negative_beginColumn:
  assumes "occ \<in> set occurrences"
    and "beginColumn occ < 0"
  shows "beginCol occ = beginColumn occ
    \<and> diagnosticOf occ =
        Inl (IllegalArgument (if beginLine occ < 1 then ''line must be non-negative''
                              else ''character must be non-negative''))
    \<and> isl (fst (prepareDiagnostics path_join workspaceDirPath occurrences fs))"
proof -
  have a: "beginCol occ = beginColumn occ"
    using assms(2) by (simp add: beginCol_def)
  have b: "diagnosticOf occ =
        Inl (IllegalArgument (if beginLine occ < 1 then ''line must be non-negative''
                              else ''character must be non-negative''))"
    using assms(2) by (simp add: diagnosticOf_def a newPosition_def)
  have "\<not> hostAccepts occ"
    by (simp add: hostAccepts_def b)
  then have "\<not> hostAccepts (occ\<lparr>path := path_join workspaceDirPath (path occ)\<rparr>)"
    by (simp add: hostAccepts_path_update)
  moreover have "occ\<lparr>path := path_join workspaceDirPath (path occ)\<rparr>
      \<in> set (map (\<lambda>occ. occ\<lparr>path := path_join workspaceDirPath (path occ)\<rparr>) occurrences)"
    using assms(1) by simp
  ultimately have c: "isl (fst (prepareDiagnostics path_join workspaceDirPath occurrences fs))"
    unfolding prepareDiagnostics_fst by (rule diagnosticLoop_rejected[rotated])
  from a b c show ?thesis by blast
qed

text \<open>
  A list whose second occurrence has the begin column \<open>-3\<close>.
\<close>

theorem prepareDiagnostics_negative_beginColumn_witness:
  "unusedImport\<lparr>beginColumn := - 3\<rparr> \<in> set [unusedImport, unusedImport\<lparr>beginColumn := - 3\<rparr>]
   \<and> beginColumn (unusedImport\<lparr>beginColumn := - 3\<rparr>) < 0
   \<and> beginCol (unusedImport\<lparr>beginColumn := - 3\<rparr>) = - 3
   \<and> diagnosticOf (unusedImport\<lparr>beginColumn := - 3\<rparr>) =
       Inl (IllegalArgument ''character must be non-negative'')
   \<and> isl (fst (prepareDiagnostics posix_join ''/repo''
                 [unusedImport, unusedImport\<lparr>beginColumn := - 3\<rparr>] repoFs))"
  using prepareDiagnostics_negative_beginColumn
    [where occ = "unusedImport\<lparr>beginColumn := - 3\<rparr>"
       and occurrences = "[unusedImport, unusedImport\<lparr>beginColumn := - 3\<rparr>]"
       and path_join = posix_join and workspaceDirPath = "''/repo''" and fs = repoFs]
  by simp

text \<open>
  The property as first stated, that the negative value becomes the start column of the
  diagnostic, fails: for the begin column \<open>-3\<close> the call returns no map, so there is no
  diagnostic.
\<close>

theorem prepareDiagnostics_negative_beginColumn_counterexample:
  "fst (prepareDiagnostics posix_join ''/repo'' [unusedImport\<lparr>beginColumn := - 3\<rparr>] repoFs) =
     Inl (IllegalArgument ''character must be non-negative'')"
  by (simp add: prepareDiagnostics_def posix_join_def posix_normalize_def diagnosticOf_def
      newPosition_def beginCol_def Let_def)

subsection \<open>The order of the keys, and a map built under other keys\<close>

lemma diagnosticLoop_append:
  "diagnosticLoop m (xs @ ys) =
     (case diagnosticLoop m xs of Inl e \<Rightarrow> Inl e | Inr m' \<Rightarrow> diagnosticLoop m' ys)"
proof (induction xs arbitrary: m)
  case Nil
  then show ?case by simp
next
  case (Cons a xs)
  show ?case
  proof (cases "diagnosticOf a")
    case (Inl e)
    then show ?thesis by (simp add: Let_def)
  next
    case (Inr d)
    show ?thesis
      unfolding append_Cons diagnosticLoop_step[OF Inr] by (rule Cons.IH)
  qed
qed

lemma diagnosticLoop_keys_prefix:
  "diagnosticLoop m xs = Inr m' \<Longrightarrow> \<exists>tl. map fst m' = map fst m @ tl"
proof (induction xs arbitrary: m)
  case Nil
  then show ?case by simp
next
  case (Cons a xs)
  from Cons.prems obtain d where d: "diagnosticOf a = Inr d"
    by (cases "diagnosticOf a") (simp_all add: Let_def)
  let ?m = "map_set m (path a) (case map_get m (path a) of None \<Rightarrow> [d] | Some ds \<Rightarrow> ds @ [d])"
  from Cons.prems have "diagnosticLoop ?m xs = Inr m'"
    by (simp only: diagnosticLoop_step[OF d])
  from Cons.IH[OF this] obtain tl where tl: "map fst m' = map fst ?m @ tl" by blast
  have "\<exists>tl'. map fst ?m = map fst m @ tl'"
    by (simp add: map_set_def update_keys)
  with tl show ?case by auto
qed

lemma diagnosticLoop_keys_new:
  assumes "diagnosticLoop m (a # xs) = Inr m'"
    and "path a \<notin> set (map fst m)"
  shows "\<exists>tl. map fst m' = map fst m @ path a # tl"
proof -
  from assms(1) obtain d where d: "diagnosticOf a = Inr d"
    by (cases "diagnosticOf a") (simp_all add: Let_def)
  let ?m = "map_set m (path a) (case map_get m (path a) of None \<Rightarrow> [d] | Some ds \<Rightarrow> ds @ [d])"
  from assms(1) have "diagnosticLoop ?m xs = Inr m'"
    by (simp only: diagnosticLoop_step[OF d])
  from diagnosticLoop_keys_prefix[OF this] obtain tl where "map fst m' = map fst ?m @ tl"
    by blast
  moreover have "map fst ?m = map fst m @ [path a]"
    using assms(2) by (simp add: map_set_def update_keys)
  ultimately show ?thesis by simp
qed

lemma diagnosticLoop_keys_set:
  "diagnosticLoop m xs = Inr m' \<Longrightarrow> set (map fst m') = set (map fst m) \<union> path ` set xs"
proof (induction xs arbitrary: m)
  case Nil
  then show ?case by simp
next
  case (Cons a xs)
  from Cons.prems obtain d where d: "diagnosticOf a = Inr d"
    by (cases "diagnosticOf a") (simp_all add: Let_def)
  let ?m = "map_set m (path a) (case map_get m (path a) of None \<Rightarrow> [d] | Some ds \<Rightarrow> ds @ [d])"
  from Cons.prems have "diagnosticLoop ?m xs = Inr m'"
    by (simp only: diagnosticLoop_step[OF d])
  from Cons.IH[OF this] have "set (map fst m') = set (map fst ?m) \<union> path ` set xs" .
  moreover have "set (map fst ?m) = insert (path a) (set (map fst m))"
    using dom_update[of "path a" _ m] by (simp add: map_set_def)
  ultimately show ?case by auto
qed

lemma filter_length_mono:
  "\<forall>x\<in>set xs. Q x \<longrightarrow> R x \<Longrightarrow> length (filter Q xs) \<le> length (filter R xs)"
  by (induction xs) auto

lemma filter_length_less:
  assumes "\<forall>x\<in>set xs. Q x \<longrightarrow> R x" and "x \<in> set xs" and "R x" and "\<not> Q x"
  shows "length (filter Q xs) < length (filter R xs)"
proof -
  from assms(2) obtain ys zs where xs: "xs = ys @ x # zs"
    by (auto simp: in_set_conv_decomp)
  have "length (filter Q ys) \<le> length (filter R ys)"
    using assms(1) xs by (intro filter_length_mono) simp
  moreover have "length (filter Q zs) \<le> length (filter R zs)"
    using assms(1) xs by (intro filter_length_mono) simp
  ultimately show ?thesis
    using assms(3,4) by (simp add: xs)
qed

lemma diagnosticLoop_entry_length:
  assumes "diagnosticLoop [] occs = Inr m"
  shows "(case map_get m p of None \<Rightarrow> 0 | Some ds \<Rightarrow> length ds) =
         length (filter (\<lambda>x. path x = p) occs)"
proof -
  have empty: "map_get ([] :: DiagnosticMap) p = None"
    by (simp add: map_get_def)
  show ?thesis
    by (simp add: diagnosticLoop_get[OF assms] empty)
qed

lemma rekeyed_equal_fixed:
  assumes r1: "diagnosticLoop [] occs = Inr m"
    and r2: "diagnosticLoop [] (map (\<lambda>occ. occ\<lparr>path := f (path occ)\<rparr>) occs) = Inr m"
  shows "\<forall>occ\<in>set occs. f (path occ) = path occ"
proof (rule ccontr)
  let ?rw = "\<lambda>occ. occ\<lparr>path := f (path occ)\<rparr>"
  assume "\<not> (\<forall>occ\<in>set occs. f (path occ) = path occ)"
  then have "\<exists>x\<in>set occs. f (path x) \<noteq> path x" by simp
  from split_list_first_prop[OF this] obtain pre x suf where
    occs: "occs = pre @ x # suf" and x: "f (path x) \<noteq> path x"
    and pre: "\<forall>y\<in>set pre. f (path y) = path y"
    by blast
  have pre_same: "map ?rw pre = pre"
    using pre by (induction pre) auto
  from r1 obtain P where P: "diagnosticLoop [] pre = Inr P"
    and m1: "diagnosticLoop P (x # suf) = Inr m"
    unfolding occs diagnosticLoop_append by (auto split: sum.splits)
  from r2 have m2: "diagnosticLoop P (?rw x # map ?rw suf) = Inr m"
    unfolding occs map_append list.map pre_same diagnosticLoop_append P by simp
  have keysP: "set (map fst P) = path ` set pre"
    using diagnosticLoop_keys_set[OF P] by simp
  have fixedP: "f k = k" if "k \<in> set (map fst P)" for k
    using that pre unfolding keysP by auto
  have notin: "path x \<notin> set (map fst P)"
    using fixedP[of "path x"] x by auto
  from diagnosticLoop_keys_new[OF m1 notin] obtain tl where
    k1: "map fst m = map fst P @ path x # tl" by blast
  show False
  proof (cases "f (path x) \<in> set (map fst P)")
    case False
    then have "path (?rw x) \<notin> set (map fst P)" by simp
    from diagnosticLoop_keys_new[OF m2 this] obtain tl' where
      "map fst m = map fst P @ path (?rw x) # tl'" by blast
    with k1 have "path x = f (path x)" by simp
    with x show False by simp
  next
    case True
    let ?k = "f (path x)"
    have fk: "f ?k = ?k" by (rule fixedP[OF True])
    have "length (filter (\<lambda>y. path y = ?k) occs) < length (filter (\<lambda>y. f (path y) = ?k) occs)"
    proof (rule filter_length_less[where x = x])
      show "\<forall>y\<in>set occs. path y = ?k \<longrightarrow> f (path y) = ?k"
        using fk by auto
      show "x \<in> set occs" by (simp add: occs)
      show "f (path x) = ?k" by simp
      show "\<not> path x = ?k" using x by auto
    qed
    moreover have "filter (\<lambda>y. path y = ?k) (map ?rw occs) =
        map ?rw (filter (\<lambda>y. f (path y) = ?k) occs)"
      by (induction occs) auto
    ultimately have "length (filter (\<lambda>y. path y = ?k) occs) <
        length (filter (\<lambda>y. path y = ?k) (map ?rw occs))"
      by simp
    then show False
      using diagnosticLoop_entry_length[OF r1, of ?k] diagnosticLoop_entry_length[OF r2, of ?k]
      by simp
  qed
qed


subsection \<open>Calling the translator again on the same list\<close>

lemma rewrite_twice:
  "\<forall>occ\<in>set occs. j root (j root (path occ)) = j root (path occ) \<Longrightarrow>
   map (\<lambda>occ. occ\<lparr>path := j root (path occ)\<rparr>) (map (\<lambda>occ. occ\<lparr>path := j root (path occ)\<rparr>) occs) =
   map (\<lambda>occ. occ\<lparr>path := j root (path occ)\<rparr>) occs"
  by (induction occs) auto

text \<open>
  C2, amended. Let the host accept every occurrence. A call builds its map from the
  empty map and nothing accumulates: the first call and a second call on the same list
  both return a map that holds one diagnostic per occurrence, and the second map is the
  one that a call in any other file system returns on the list as the first call left
  it, with every path rewritten to \<open>path_join workspaceDirPath path\<close>. The two maps are
  equal if and only if joining the root a second time changes none of the rewritten
  paths.
\<close>

theorem prepareDiagnostics_rerun:
  assumes "\<forall>occ\<in>set occurrences. hostAccepts occ"
  shows "(case prepareDiagnostics path_join workspaceDirPath occurrences fs of
      (r1, occurrences1, fs1) \<Rightarrow>
        (case prepareDiagnostics path_join workspaceDirPath occurrences1 fs1 of
           (r2, occurrences2, fs2) \<Rightarrow>
             (\<exists>m1 m2. r1 = Inr m1 \<and> r2 = Inr m2
                \<and> sum_list (map (\<lambda>entry. length (snd entry)) m1) = length occurrences
                \<and> sum_list (map (\<lambda>entry. length (snd entry)) m2) = length occurrences
                \<and> occurrences1 =
                    map (\<lambda>occ. occ\<lparr>path := path_join workspaceDirPath (path occ)\<rparr>) occurrences
                \<and> r2 = fst (prepareDiagnostics path_join workspaceDirPath occurrences1 fs)
                \<and> (m2 = m1 \<longleftrightarrow>
                     (\<forall>occ\<in>set occurrences.
                        path_join workspaceDirPath (path_join workspaceDirPath (path occ)) =
                        path_join workspaceDirPath (path occ))))))"
proof -
  let ?rw = "\<lambda>occ. occ\<lparr>path := path_join workspaceDirPath (path occ)\<rparr>"
  obtain r1 occurrences1 fs1 where r1:
    "prepareDiagnostics path_join workspaceDirPath occurrences fs = (r1, occurrences1, fs1)"
    by (cases "prepareDiagnostics path_join workspaceDirPath occurrences fs") auto
  obtain r2 occurrences2 fs2 where r2:
    "prepareDiagnostics path_join workspaceDirPath occurrences1 fs1 = (r2, occurrences2, fs2)"
    by (cases "prepareDiagnostics path_join workspaceDirPath occurrences1 fs1") auto
  have o1: "occurrences1 = map ?rw occurrences"
    using r1 prepareDiagnostics_occurrences[of path_join workspaceDirPath occurrences fs] by simp
  have acc1: "\<forall>occ\<in>set (map ?rw occurrences). hostAccepts occ"
    using assms by (simp add: hostAccepts_path_update)
  have acc2: "\<forall>occ\<in>set (map ?rw (map ?rw occurrences)). hostAccepts occ"
    using assms by (simp add: hostAccepts_path_update)
  from diagnosticLoop_accepted[OF acc1] obtain m1 where
    m1: "diagnosticLoop [] (map ?rw occurrences) = Inr m1" by blast
  from diagnosticLoop_accepted[OF acc2] obtain m2 where
    m2: "diagnosticLoop [] (map ?rw (map ?rw occurrences)) = Inr m2" by blast
  have e1: "r1 = Inr m1"
    using r1 prepareDiagnostics_fst[of path_join workspaceDirPath occurrences fs] m1 by simp
  have e2: "r2 = Inr m2"
    using r2 prepareDiagnostics_fst[of path_join workspaceDirPath occurrences1 fs1] m2 o1 by simp
  have c1: "sum_list (map (\<lambda>entry. length (snd entry)) m1) = length occurrences"
    using diagnosticLoop_count[OF m1] by simp
  have c2: "sum_list (map (\<lambda>entry. length (snd entry)) m2) = length occurrences"
    using diagnosticLoop_count[OF m2] by simp
  have indep: "r2 = fst (prepareDiagnostics path_join workspaceDirPath occurrences1 fs)"
    unfolding e2 prepareDiagnostics_fst o1 by (rule m2[symmetric])
  have same: "m2 = m1 \<longleftrightarrow>
      (\<forall>occ\<in>set occurrences.
         path_join workspaceDirPath (path_join workspaceDirPath (path occ)) =
         path_join workspaceDirPath (path occ))"
  proof
    assume "m2 = m1"
    with m2 have "diagnosticLoop []
        (map (\<lambda>occ. occ\<lparr>path := path_join workspaceDirPath (path occ)\<rparr>) (map ?rw occurrences)) =
        Inr m1"
      by simp
    from rekeyed_equal_fixed[OF m1 this]
    show "\<forall>occ\<in>set occurrences.
         path_join workspaceDirPath (path_join workspaceDirPath (path occ)) =
         path_join workspaceDirPath (path occ)"
      by simp
  next
    assume "\<forall>occ\<in>set occurrences.
         path_join workspaceDirPath (path_join workspaceDirPath (path occ)) =
         path_join workspaceDirPath (path occ)"
    then have "map ?rw (map ?rw occurrences) = map ?rw occurrences"
      by (rule rewrite_twice)
    then have "diagnosticLoop [] (map ?rw occurrences) = Inr m2"
      using m2 by (simp only:)
    with m1 show "m2 = m1" by simp
  qed
  show ?thesis
    unfolding r1 prod.case r2
    using e1 e2 c1 c2 o1 indep same by blast
qed

text \<open>
  The amended property at the workspace root \<open>/\<close>, where joining the root twice is
  joining it once.
\<close>

theorem prepareDiagnostics_rerun_witness:
  "list_all hostAccepts [unusedImport]
   \<and> posix_join ''/'' (posix_join ''/'' (path unusedImport)) = posix_join ''/'' (path unusedImport)
   \<and> fst (prepareDiagnostics posix_join ''/''
           (fst (snd (prepareDiagnostics posix_join ''/'' [unusedImport] \<lparr>dirs = [''/''], files = []\<rparr>)))
           (snd (snd (prepareDiagnostics posix_join ''/'' [unusedImport] \<lparr>dirs = [''/''], files = []\<rparr>)))) =
       fst (prepareDiagnostics posix_join ''/'' [unusedImport] \<lparr>dirs = [''/''], files = []\<rparr>)
   \<and> fst (prepareDiagnostics posix_join ''/'' [unusedImport] \<lparr>dirs = [''/''], files = []\<rparr>) =
       Inr [(''/a.py'',
             [\<lparr>diag_range = \<lparr>range_start = \<lparr>line = 4, character = 2\<rparr>,
                             range_end = \<lparr>line = 4, character = 10\<rparr>\<rparr>,
               message = ''Unused import'', severity = Error\<rparr>])]"
  using prepareDiagnostics_rerun
    [where path_join = posix_join and workspaceDirPath = "''/''"
       and occurrences = "[unusedImport]" and fs = "\<lparr>dirs = [''/''], files = []\<rparr>"]
  by (auto simp: hostAccepts_iff posix_join_def posix_normalize_def prepareDiagnostics_def
      diagnosticOf_def newPosition_def newDiagnostic_def beginCol_def Let_def
      map_has_def map_get_def map_set_def split: prod.splits)

text \<open>
  The property as first stated fails in the workspace \<open>/repo\<close>: the first call keys the
  diagnostic by \<open>/repo/a.py\<close> and overwrites the occurrence's path with it, so the
  second call on the same list keys it by \<open>/repo/repo/a.py\<close>.
\<close>

theorem prepareDiagnostics_twice_counterexample:
  "fst (prepareDiagnostics posix_join ''/repo'' [unusedImport] repoFs) =
     Inr [(''/repo/a.py'',
       [\<lparr>diag_range = \<lparr>range_start = \<lparr>line = 4, character = 2\<rparr>,
                       range_end = \<lparr>line = 4, character = 10\<rparr>\<rparr>,
         message = ''Unused import'', severity = Error\<rparr>])]
   \<and> fst (prepareDiagnostics posix_join ''/repo''
           (fst (snd (prepareDiagnostics posix_join ''/repo'' [unusedImport] repoFs)))
           (snd (snd (prepareDiagnostics posix_join ''/repo'' [unusedImport] repoFs)))) =
     Inr [(''/repo/repo/a.py'',
       [\<lparr>diag_range = \<lparr>range_start = \<lparr>line = 4, character = 2\<rparr>,
                       range_end = \<lparr>line = 4, character = 10\<rparr>\<rparr>,
         message = ''Unused import'', severity = Error\<rparr>])]
   \<and> fst (prepareDiagnostics posix_join ''/repo''
           (fst (snd (prepareDiagnostics posix_join ''/repo'' [unusedImport] repoFs)))
           (snd (snd (prepareDiagnostics posix_join ''/repo'' [unusedImport] repoFs)))) \<noteq>
     fst (prepareDiagnostics posix_join ''/repo'' [unusedImport] repoFs)"
  by (simp add: prepareDiagnostics_def posix_join_def posix_normalize_def diagnosticOf_def
      newPosition_def newDiagnostic_def beginCol_def Let_def map_has_def map_get_def map_set_def)

section \<open>Properties of the repository identity resolver\<close>

subsection \<open>The matcher\<close>

lemma plusThen_greedy:
  assumes "\<And>g c r. P c \<Longrightarrow> k g (c # r) = None"
  shows "plusThen P k acc s =
           (if takeWhile P s = [] then None else k (acc @ takeWhile P s) (dropWhile P s))"
proof (induction s arbitrary: acc)
  case Nil
  then show ?case by simp
next
  case (Cons c cs)
  show ?case
  proof (cases "P c")
    case False
    then show ?thesis by simp
  next
    case True
    show ?thesis
    proof (cases "takeWhile P cs = []")
      case empty: True
      then have "dropWhile P cs = cs"
        by (cases cs) (auto split: if_splits)
      with True empty show ?thesis by (simp add: Cons.IH)
    next
      case nonempty: False
      then obtain d ds where cs: "cs = d # ds" and d: "P d"
        by (cases cs) (auto split: if_splits)
      have "k (acc @ [c]) cs = None"
        unfolding cs using assms[OF d] .
      with True nonempty show ?thesis
        by (simp add: Cons.IH split: option.splits)
    qed
  qed
qed

lemma not_word_slash: "\<not> isWordOrHyphen CHR ''/''"
  by (simp add: isWordOrHyphen_def)

lemma not_word_dot: "\<not> isWordOrHyphen CHR ''.''"
  by (simp add: isWordOrHyphen_def)

lemma matchAt_greedy:
  "matchAt s =
     (let g1 = takeWhile isWordOrHyphen s; r1 = dropWhile isWordOrHyphen s
      in if g1 = [] then None
         else (case r1 of
                 [] \<Rightarrow> None
               | c # r2 \<Rightarrow>
                   if c = CHR ''/''
                   then (let g2 = takeWhile isWordOrHyphen r2; r3 = dropWhile isWordOrHyphen r2
                         in if g2 = [] then None
                            else if take 4 r3 = ''.git''
                                 then Some [g1 @ ''/'' @ g2 @ ''.git'', g1, g2]
                                 else None)
                   else None))"
proof -
  have inner: "\<And>g1 r2. plusThen isWordOrHyphen
                           (\<lambda>g2 r3. if take 4 r3 = ''.git''
                                     then Some [g1 @ ''/'' @ g2 @ ''.git'', g1, g2]
                                     else None)
                           [] r2 =
      (if takeWhile isWordOrHyphen r2 = [] then None
       else if take 4 (dropWhile isWordOrHyphen r2) = ''.git''
            then Some [g1 @ ''/'' @ takeWhile isWordOrHyphen r2 @ ''.git'', g1, takeWhile isWordOrHyphen r2]
            else None)"
    by (subst plusThen_greedy) (auto simp: not_word_dot)
  have outer: "\<And>K. (\<And>g c r. isWordOrHyphen c \<Longrightarrow> K g (c # r) = None) \<Longrightarrow>
      plusThen isWordOrHyphen K [] s =
      (if takeWhile isWordOrHyphen s = [] then None
       else K (takeWhile isWordOrHyphen s) (dropWhile isWordOrHyphen s))"
    by (subst plusThen_greedy) simp_all
  show ?thesis
    unfolding matchAt_def inner
    by (subst outer) (auto simp only: not_word_slash Let_def split: list.splits if_splits)
qed

lemma takeWhile_run:
  "list_all P u \<Longrightarrow> \<not> P c \<Longrightarrow> takeWhile P (u @ c # rest) = u"
  by (induction u) auto

lemma dropWhile_run:
  "list_all P u \<Longrightarrow> \<not> P c \<Longrightarrow> dropWhile P (u @ c # rest) = c # rest"
  by (induction u) auto

lemma matchAt_shape:
  "matchAt s = Some m \<longleftrightarrow>
     (\<exists>user repo post. urlShape s [] user repo post \<and> m = [user @ ''/'' @ repo @ ''.git'', user, repo])"
  unfolding urlShape_def
proof
  assume "matchAt s = Some m"
  then obtain r2 where
      g1: "takeWhile isWordOrHyphen s \<noteq> []"
    and r1: "dropWhile isWordOrHyphen s = CHR ''/'' # r2"
    and g2: "takeWhile isWordOrHyphen r2 \<noteq> []"
    and r3: "take 4 (dropWhile isWordOrHyphen r2) = ''.git''"
    and m: "m = [takeWhile isWordOrHyphen s @ ''/'' @ takeWhile isWordOrHyphen r2 @ ''.git'',
                 takeWhile isWordOrHyphen s, takeWhile isWordOrHyphen r2]"
    by (auto simp: matchAt_greedy Let_def split: if_splits list.splits)
  let ?u = "takeWhile isWordOrHyphen s" and ?r = "takeWhile isWordOrHyphen r2"
  have "dropWhile isWordOrHyphen r2 = ''.git'' @ drop 4 (dropWhile isWordOrHyphen r2)"
    using r3 append_take_drop_id[of 4 "dropWhile isWordOrHyphen r2"] by simp
  then have "r2 = ?r @ ''.git'' @ drop 4 (dropWhile isWordOrHyphen r2)"
    using takeWhile_dropWhile_id[of isWordOrHyphen r2] by simp
  moreover have "s = ?u @ CHR ''/'' # r2"
    using takeWhile_dropWhile_id[of isWordOrHyphen s] r1 by simp
  ultimately have "s = [] @ ?u @ ''/'' @ ?r @ ''.git'' @ drop 4 (dropWhile isWordOrHyphen r2)"
    by simp
  moreover have "list_all isWordOrHyphen ?u" "list_all isWordOrHyphen ?r"
    by (simp_all add: list_all_iff) (auto dest: set_takeWhileD)
  ultimately show "\<exists>user repo post.
      (s = [] @ user @ ''/'' @ repo @ ''.git'' @ post \<and> user \<noteq> [] \<and> repo \<noteq> []
       \<and> list_all isWordOrHyphen user \<and> list_all isWordOrHyphen repo)
      \<and> m = [user @ ''/'' @ repo @ ''.git'', user, repo]"
    using g1 g2 m by blast
next
  assume "\<exists>user repo post.
      (s = [] @ user @ ''/'' @ repo @ ''.git'' @ post \<and> user \<noteq> [] \<and> repo \<noteq> []
       \<and> list_all isWordOrHyphen user \<and> list_all isWordOrHyphen repo)
      \<and> m = [user @ ''/'' @ repo @ ''.git'', user, repo]"
  then obtain user repo post where
      s: "s = user @ CHR ''/'' # (repo @ CHR ''.'' # CHR ''g'' # CHR ''i'' # CHR ''t'' # post)"
    and ne: "user \<noteq> []" "repo \<noteq> []"
    and w: "list_all isWordOrHyphen user" "list_all isWordOrHyphen repo"
    and m: "m = [user @ ''/'' @ repo @ ''.git'', user, repo]"
    by auto
  have 1: "takeWhile isWordOrHyphen s = user"
    unfolding s by (rule takeWhile_run[OF w(1) not_word_slash])
  have 2: "dropWhile isWordOrHyphen s = CHR ''/'' # (repo @ CHR ''.'' # CHR ''g'' # CHR ''i'' # CHR ''t'' # post)"
    unfolding s by (rule dropWhile_run[OF w(1) not_word_slash])
  have 3: "takeWhile isWordOrHyphen (repo @ CHR ''.'' # CHR ''g'' # CHR ''i'' # CHR ''t'' # post) = repo"
    by (rule takeWhile_run[OF w(2) not_word_dot])
  have 4: "dropWhile isWordOrHyphen (repo @ CHR ''.'' # CHR ''g'' # CHR ''i'' # CHR ''t'' # post) = CHR ''.'' # CHR ''g'' # CHR ''i'' # CHR ''t'' # post"
    by (rule dropWhile_run[OF w(2) not_word_dot])
  show "matchAt s = Some m"
    by (simp add: matchAt_greedy 1 2 3 4 ne m Let_def)
qed


lemma regexMatch_leftmost:
  "regexMatch s = Some m \<longleftrightarrow>
     (\<exists>pre t. s = pre @ t \<and> matchAt t = Some m
        \<and> (\<forall>pre' t'. s = pre' @ t' \<and> length pre' < length pre \<longrightarrow> matchAt t' = None))"
proof (induction s)
  case Nil
  then show ?case by auto
next
  case (Cons c cs)
  show ?case
  proof (cases "matchAt (c # cs)")
    case (Some m')
    have "(\<exists>pre t. c # cs = pre @ t \<and> matchAt t = Some m
        \<and> (\<forall>pre' t'. c # cs = pre' @ t' \<and> length pre' < length pre \<longrightarrow> matchAt t' = None))
        \<longleftrightarrow> m' = m"
    proof
      assume "\<exists>pre t. c # cs = pre @ t \<and> matchAt t = Some m
        \<and> (\<forall>pre' t'. c # cs = pre' @ t' \<and> length pre' < length pre \<longrightarrow> matchAt t' = None)"
      then obtain pre t where pt: "c # cs = pre @ t" "matchAt t = Some m"
        and left: "\<forall>pre' t'. c # cs = pre' @ t' \<and> length pre' < length pre \<longrightarrow> matchAt t' = None"
        by blast
      show "m' = m"
      proof (cases pre)
        case Nil
        with pt Some show ?thesis by simp
      next
        case (Cons a pre2)
        then have "matchAt (c # cs) = None"
          using left[rule_format, of "[]" "c # cs"] by simp
        with Some show ?thesis by simp
      qed
    next
      assume "m' = m"
      then have "c # cs = [] @ (c # cs) \<and> matchAt (c # cs) = Some m
        \<and> (\<forall>pre' t'. c # cs = pre' @ t' \<and> length pre' < length ([]::string) \<longrightarrow> matchAt t' = None)"
        using Some by simp
      then show "\<exists>pre t. c # cs = pre @ t \<and> matchAt t = Some m
        \<and> (\<forall>pre' t'. c # cs = pre' @ t' \<and> length pre' < length pre \<longrightarrow> matchAt t' = None)"
        by blast
    qed
    with Some show ?thesis by simp
  next
    case None
    have "(\<exists>pre t. c # cs = pre @ t \<and> matchAt t = Some m
        \<and> (\<forall>pre' t'. c # cs = pre' @ t' \<and> length pre' < length pre \<longrightarrow> matchAt t' = None))
      \<longleftrightarrow> (\<exists>pre t. cs = pre @ t \<and> matchAt t = Some m
        \<and> (\<forall>pre' t'. cs = pre' @ t' \<and> length pre' < length pre \<longrightarrow> matchAt t' = None))"
    proof
      assume "\<exists>pre t. c # cs = pre @ t \<and> matchAt t = Some m
        \<and> (\<forall>pre' t'. c # cs = pre' @ t' \<and> length pre' < length pre \<longrightarrow> matchAt t' = None)"
      then obtain pre t where pt: "c # cs = pre @ t" "matchAt t = Some m"
        and left: "\<forall>pre' t'. c # cs = pre' @ t' \<and> length pre' < length pre \<longrightarrow> matchAt t' = None"
        by blast
      from pt None obtain pre2 where pre: "pre = c # pre2" and cs: "cs = pre2 @ t"
        by (cases pre) auto
      have "\<forall>pre' t'. cs = pre' @ t' \<and> length pre' < length pre2 \<longrightarrow> matchAt t' = None"
      proof (intro allI impI)
        fix pre' t'
        assume "cs = pre' @ t' \<and> length pre' < length pre2"
        then have "c # cs = (c # pre') @ t' \<and> length (c # pre') < length pre"
          by (simp add: pre)
        then show "matchAt t' = None"
          using left by blast
      qed
      with cs pt(2) show "\<exists>pre t. cs = pre @ t \<and> matchAt t = Some m
        \<and> (\<forall>pre' t'. cs = pre' @ t' \<and> length pre' < length pre \<longrightarrow> matchAt t' = None)"
        by blast
    next
      assume "\<exists>pre t. cs = pre @ t \<and> matchAt t = Some m
        \<and> (\<forall>pre' t'. cs = pre' @ t' \<and> length pre' < length pre \<longrightarrow> matchAt t' = None)"
      then obtain pre t where pt: "cs = pre @ t" "matchAt t = Some m"
        and left: "\<forall>pre' t'. cs = pre' @ t' \<and> length pre' < length pre \<longrightarrow> matchAt t' = None"
        by blast
      have "\<forall>pre' t'. c # cs = pre' @ t' \<and> length pre' < length (c # pre) \<longrightarrow> matchAt t' = None"
      proof (intro allI impI)
        fix pre' t'
        assume a: "c # cs = pre' @ t' \<and> length pre' < length (c # pre)"
        show "matchAt t' = None"
        proof (cases pre')
          case Nil
          with a None show ?thesis by simp
        next
          case (Cons a' pre2)
          with a have "cs = pre2 @ t' \<and> length pre2 < length pre" by simp
          then show ?thesis using left by blast
        qed
      qed
      moreover have "c # cs = (c # pre) @ t" using pt(1) by simp
      ultimately show "\<exists>pre t. c # cs = pre @ t \<and> matchAt t = Some m
        \<and> (\<forall>pre' t'. c # cs = pre' @ t' \<and> length pre' < length pre \<longrightarrow> matchAt t' = None)"
        using pt(2) by blast
    qed
    with None Cons.IH show ?thesis by simp
  qed
qed

lemma regexMatch_exists:
  "matchAt t \<noteq> None \<Longrightarrow> regexMatch (pre @ t) \<noteq> None"
proof (induction pre)
  case Nil
  then show ?case by (cases t) (auto split: option.splits)
next
  case (Cons a pre)
  then show ?case by (auto split: option.splits)
qed




lemma urlShape_matchAt:
  assumes "urlShape url pre u r post"
  shows "matchAt (u @ ''/'' @ r @ ''.git'' @ post) = Some [u @ ''/'' @ r @ ''.git'', u, r]"
    and "url = pre @ (u @ ''/'' @ r @ ''.git'' @ post)"
proof -
  from assms have "urlShape (u @ ''/'' @ r @ ''.git'' @ post) [] u r post"
    by (simp add: urlShape_def)
  then have "\<exists>user repo post'. urlShape (u @ ''/'' @ r @ ''.git'' @ post) [] user repo post'
      \<and> [u @ ''/'' @ r @ ''.git'', u, r] = [user @ ''/'' @ repo @ ''.git'', user, repo]"
    by (intro exI[of _ u] exI[of _ r] exI[of _ post]) simp
  then show "matchAt (u @ ''/'' @ r @ ''.git'' @ post) = Some [u @ ''/'' @ r @ ''.git'', u, r]"
    by (simp only: matchAt_shape)
  from assms show "url = pre @ (u @ ''/'' @ r @ ''.git'' @ post)"
    by (simp add: urlShape_def)
qed

lemma matchAt_urlShape:
  assumes "matchAt t = Some m"
  obtains u r post where "urlShape (pre @ t) pre u r post"
    and "m = [u @ ''/'' @ r @ ''.git'', u, r]"
proof -
  from assms have "\<exists>user repo post. urlShape t [] user repo post
      \<and> m = [user @ ''/'' @ repo @ ''.git'', user, repo]"
    by (simp only: matchAt_shape)
  then obtain u r post where "urlShape t [] u r post" "m = [u @ ''/'' @ r @ ''.git'', u, r]"
    by blast
  then show thesis
    using that[of u r post] by (simp add: urlShape_def)
qed

lemma regexMatch_Some_shape:
  assumes "regexMatch url = Some m"
  shows "\<exists>pre u r post. urlShape url pre u r post
           \<and> m = [u @ ''/'' @ r @ ''.git'', u, r]
           \<and> (\<forall>pre' u' r' post'. urlShape url pre' u' r' post' \<longrightarrow> length pre \<le> length pre')"
proof -
  from assms obtain pre t where pt: "url = pre @ t" "matchAt t = Some m"
    and left: "\<forall>pre' t'. url = pre' @ t' \<and> length pre' < length pre \<longrightarrow> matchAt t' = None"
    by (simp only: regexMatch_leftmost) blast
  from pt(2) obtain u r post where sh: "urlShape (pre @ t) pre u r post"
    and m: "m = [u @ ''/'' @ r @ ''.git'', u, r]"
    by (rule matchAt_urlShape)
  have least: "length pre \<le> length pre'" if s': "urlShape url pre' u' r' post'" for pre' u' r' post'
  proof (rule ccontr)
    assume "\<not> length pre \<le> length pre'"
    then have "url = pre' @ (u' @ ''/'' @ r' @ ''.git'' @ post') \<and> length pre' < length pre"
      using urlShape_matchAt(2)[OF s'] by simp
    then have "matchAt (u' @ ''/'' @ r' @ ''.git'' @ post') = None"
      using left[rule_format, of pre' "u' @ ''/'' @ r' @ ''.git'' @ post'"] by simp
    then show False
      using urlShape_matchAt(1)[OF s'] by simp
  qed
  from sh pt(1) have "urlShape url pre u r post" by simp
  with m least show ?thesis by blast
qed

lemma urlShape_regexMatch:
  assumes shape: "urlShape url pre u r post"
    and least: "\<forall>pre' u' r' post'. urlShape url pre' u' r' post' \<longrightarrow> length pre \<le> length pre'"
  shows "regexMatch url = Some [u @ ''/'' @ r @ ''.git'', u, r]"
proof -
  let ?t = "u @ ''/'' @ r @ ''.git'' @ post"
  let ?m = "[u @ ''/'' @ r @ ''.git'', u, r]"
  have mt: "matchAt ?t = Some ?m" and url: "url = pre @ ?t"
    using urlShape_matchAt[OF shape] by simp_all
  have left: "\<forall>pre' t'. url = pre' @ t' \<and> length pre' < length pre \<longrightarrow> matchAt t' = None"
  proof (intro allI impI)
    fix pre' t'
    assume a: "url = pre' @ t' \<and> length pre' < length pre"
    show "matchAt t' = None"
    proof (rule ccontr)
      assume "matchAt t' \<noteq> None"
      then obtain m' where m': "matchAt t' = Some m'" by blast
      obtain u' r' post' where "urlShape (pre' @ t') pre' u' r' post'"
        using m' by (rule matchAt_urlShape)
      then have "urlShape url pre' u' r' post'"
        using a by simp
      then have "length pre \<le> length pre'"
        using least by blast
      with a show False by simp
    qed
  qed
  have "\<exists>pre t. url = pre @ t \<and> matchAt t = Some ?m
        \<and> (\<forall>pre' t'. url = pre' @ t' \<and> length pre' < length pre \<longrightarrow> matchAt t' = None)"
    using url mt left by (intro exI[of _ pre] exI[of _ ?t]) simp
  then show ?thesis
    by (simp only: regexMatch_leftmost)
qed

lemma urlShape_regexMatch_exists:
  assumes "urlShape url pre u r post"
  shows "regexMatch url \<noteq> None"
proof -
  have "matchAt (u @ ''/'' @ r @ ''.git'' @ post) \<noteq> None"
    using urlShape_matchAt(1)[OF assms] by simp
  then have "regexMatch (pre @ (u @ ''/'' @ r @ ''.git'' @ post)) \<noteq> None"
    by (rule regexMatch_exists)
  then show ?thesis
    using urlShape_matchAt(2)[OF assms] by simp
qed


subsection \<open>Which URLs resolve, and to what\<close>

text \<open>
  C4, amended. The resolver returns the names \<open>user\<close> and \<open>repo\<close> exactly when the
  directory is a repository whose remote URL contains \<open>user/repo.git\<close>, both names
  non-empty and made of word characters or hyphens, at the leftmost place where the URL
  contains such a text. The \<open>.git\<close> is required, and the text need not end the URL nor
  fill whole path segments. The resolver returns \<open>null\<close> exactly when there is no such
  place.
\<close>

theorem getRepoAndUserName_shape:
  "(getRepoAndUserName gitRepo = Some (RepoInfo user repo) \<longleftrightarrow>
      isRepo gitRepo
      \<and> (\<exists>url pre post. remote_origin_url gitRepo = Some url
            \<and> urlShape url pre user repo post
            \<and> (\<forall>pre' user' repo' post'.
                  urlShape url pre' user' repo' post' \<longrightarrow> length pre \<le> length pre')))
   \<and> (getRepoAndUserName gitRepo = None \<longleftrightarrow>
        \<not> (isRepo gitRepo
            \<and> (\<exists>url pre user' repo' post. remote_origin_url gitRepo = Some url
                  \<and> urlShape url pre user' repo' post)))"
proof -
  have first: "getRepoAndUserName gitRepo = Some (RepoInfo user repo) \<longleftrightarrow>
      isRepo gitRepo
      \<and> (\<exists>url pre post. remote_origin_url gitRepo = Some url
            \<and> urlShape url pre user repo post
            \<and> (\<forall>pre' user' repo' post'.
                  urlShape url pre' user' repo' post' \<longrightarrow> length pre \<le> length pre'))"
  proof
    assume "getRepoAndUserName gitRepo = Some (RepoInfo user repo)"
    then obtain url matches where isr: "isRepo gitRepo"
      and url: "remote_origin_url gitRepo = Some url"
      and rm: "regexMatch url = Some matches"
      and ur: "matches ! 1 = user" "matches ! 2 = repo"
      by (auto simp: getRepoAndUserName_def split: if_splits option.splits)
    from regexMatch_Some_shape[OF rm] obtain pre u r post where sh: "urlShape url pre u r post"
      and m: "matches = [u @ ''/'' @ r @ ''.git'', u, r]"
      and least: "\<forall>pre' user' repo' post'.
        urlShape url pre' user' repo' post' \<longrightarrow> length pre \<le> length pre'"
      by blast
    from m ur have "u = user" "r = repo" by simp_all
    with sh have shape: "urlShape url pre user repo post" by simp
    from isr url shape least show "isRepo gitRepo
      \<and> (\<exists>url pre post. remote_origin_url gitRepo = Some url
            \<and> urlShape url pre user repo post
            \<and> (\<forall>pre' user' repo' post'.
                  urlShape url pre' user' repo' post' \<longrightarrow> length pre \<le> length pre'))"
      by blast
  next
    assume "isRepo gitRepo
      \<and> (\<exists>url pre post. remote_origin_url gitRepo = Some url
            \<and> urlShape url pre user repo post
            \<and> (\<forall>pre' user' repo' post'.
                  urlShape url pre' user' repo' post' \<longrightarrow> length pre \<le> length pre'))"
    then obtain url pre post where isr: "isRepo gitRepo"
      and url: "remote_origin_url gitRepo = Some url"
      and shape: "urlShape url pre user repo post"
      and least: "\<forall>pre' user' repo' post'.
                  urlShape url pre' user' repo' post' \<longrightarrow> length pre \<le> length pre'"
      by blast
    have "regexMatch url = Some [user @ ''/'' @ repo @ ''.git'', user, repo]"
      by (rule urlShape_regexMatch[OF shape least])
    then show "getRepoAndUserName gitRepo = Some (RepoInfo user repo)"
      using isr url by (simp add: getRepoAndUserName_def)
  qed
  have second: "getRepoAndUserName gitRepo = None \<longleftrightarrow>
        \<not> (isRepo gitRepo
            \<and> (\<exists>url pre user' repo' post. remote_origin_url gitRepo = Some url
                  \<and> urlShape url pre user' repo' post))"
  proof
    assume none: "getRepoAndUserName gitRepo = None"
    show "\<not> (isRepo gitRepo
            \<and> (\<exists>url pre user' repo' post. remote_origin_url gitRepo = Some url
                  \<and> urlShape url pre user' repo' post))"
    proof
      assume "isRepo gitRepo
            \<and> (\<exists>url pre user' repo' post. remote_origin_url gitRepo = Some url
                  \<and> urlShape url pre user' repo' post)"
      then obtain url pre u r post where isr: "isRepo gitRepo"
        and url: "remote_origin_url gitRepo = Some url"
        and shape: "urlShape url pre u r post"
        by blast
      have "regexMatch url \<noteq> None"
        by (rule urlShape_regexMatch_exists[OF shape])
      then obtain m where rm: "regexMatch url = Some m"
        by blast
      from regexMatch_Some_shape[OF rm] obtain u2 r2 where
        "m = [u2 @ ''/'' @ r2 @ ''.git'', u2, r2]"
        by blast
      then have "length m = 3" by simp
      with rm isr url none show False
        by (simp add: getRepoAndUserName_def)
    qed
  next
    assume no: "\<not> (isRepo gitRepo
            \<and> (\<exists>url pre user' repo' post. remote_origin_url gitRepo = Some url
                  \<and> urlShape url pre user' repo' post))"
    show "getRepoAndUserName gitRepo = None"
    proof (rule ccontr)
      assume "getRepoAndUserName gitRepo \<noteq> None"
      then obtain url matches where isr: "isRepo gitRepo"
        and url: "remote_origin_url gitRepo = Some url"
        and rm: "regexMatch url = Some matches"
        by (auto simp: getRepoAndUserName_def split: if_splits option.splits)
      from regexMatch_Some_shape[OF rm] obtain pre u r post where "urlShape url pre u r post"
        by blast
      with isr url no show False by blast
    qed
  qed
  from first second show ?thesis by (rule conjI)
qed

text \<open>
  The amended property at a URL that ends in \<open>.git\<close> and at one that does not.
\<close>

theorem getRepoAndUserName_shape_witness:
  "getRepoAndUserName \<lparr>isRepo = True, remote_origin_url = Some ''https://github.com/user/repo.git''\<rparr> =
     Some (RepoInfo ''user'' ''repo'')
   \<and> (\<exists>url pre post.
         remote_origin_url \<lparr>isRepo = True, remote_origin_url = Some ''https://github.com/user/repo.git''\<rparr>
           = Some url
         \<and> urlShape url pre ''user'' ''repo'' post
         \<and> (\<forall>pre' user' repo' post'.
               urlShape url pre' user' repo' post' \<longrightarrow> length pre \<le> length pre'))
   \<and> getRepoAndUserName \<lparr>isRepo = True, remote_origin_url = Some ''https://github.com/user/repo''\<rparr> =
       None
   \<and> \<not> (\<exists>url pre user' repo' post.
           remote_origin_url \<lparr>isRepo = True, remote_origin_url = Some ''https://github.com/user/repo''\<rparr>
             = Some url
           \<and> urlShape url pre user' repo' post)"
proof -
  have a: "getRepoAndUserName
      \<lparr>isRepo = True, remote_origin_url = Some ''https://github.com/user/repo.git''\<rparr> =
     Some (RepoInfo ''user'' ''repo'')"
    by (simp add: getRepoAndUserName_def matchAt_def isWordOrHyphen_def)
  have b: "getRepoAndUserName
      \<lparr>isRepo = True, remote_origin_url = Some ''https://github.com/user/repo''\<rparr> = None"
    by (simp add: getRepoAndUserName_def matchAt_def isWordOrHyphen_def)
  show ?thesis
    using a b
      getRepoAndUserName_shape
        [where gitRepo = "\<lparr>isRepo = True,
             remote_origin_url = Some ''https://github.com/user/repo.git''\<rparr>"
           and user = "''user''" and repo = "''repo''"]
      getRepoAndUserName_shape
        [where gitRepo = "\<lparr>isRepo = True,
             remote_origin_url = Some ''https://github.com/user/repo''\<rparr>"]
    by simp
qed

text \<open>
  The property as first stated, with the suffix optional and the names taken from the
  final two segments, fails in both directions: a URL without \<open>.git\<close> does not resolve;
  a segment that is not made of word characters resolves by its tail; and after a
  \<open>.git\<close> in the middle the names are not those of the final segments.
\<close>

theorem getRepoAndUserName_final_segments_counterexample:
  "spec_accountAndRepo ''https://github.com/user/repo'' = Some (''user'', ''repo'')
   \<and> getRepoAndUserName \<lparr>isRepo = True, remote_origin_url = Some ''https://github.com/user/repo''\<rparr> =
       None
   \<and> spec_accountAndRepo ''https://github.com/my.org/repo.git'' = None
   \<and> getRepoAndUserName
       \<lparr>isRepo = True, remote_origin_url = Some ''https://github.com/my.org/repo.git''\<rparr> =
       Some (RepoInfo ''org'' ''repo'')
   \<and> spec_accountAndRepo ''https://host/a/b.git/c/d'' = Some (''c'', ''d'')
   \<and> getRepoAndUserName \<lparr>isRepo = True, remote_origin_url = Some ''https://host/a/b.git/c/d''\<rparr> =
       Some (RepoInfo ''a'' ''b'')"
  by (simp add: spec_accountAndRepo_def getRepoAndUserName_def matchAt_def isWordOrHyphen_def
      Let_def)

section \<open>Properties of the session\<close>

subsection \<open>What the handlers leave alone\<close>

lemma fetchAnalysisReport_keeps:
  "diagnosticsInFile (snd (fetchAnalysisReport client s)) = diagnosticsInFile s"
  "diagnosticCollection (snd (fetchAnalysisReport client s)) = diagnosticCollection s"
  "deepSource (snd (fetchAnalysisReport client s)) = deepSource s"
  "cache (snd (fetchAnalysisReport client s)) = cache s"
  by (simp_all add: fetchAnalysisReport_def split: option.splits)

lemma fetchAnalysisReport_shown:
  "\<exists>msgs. shown (snd (fetchAnalysisReport client s)) = shown s @ msgs \<and> ShowInputBox \<notin> set msgs"
  by (simp add: fetchAnalysisReport_def split: option.splits)

lemma calculateDiagnostics_keeps:
  "diagnosticCollection (snd (calculateDiagnostics client j root s)) = diagnosticCollection s"
  "deepSource (snd (calculateDiagnostics client j root s)) = deepSource s"
  "cache (snd (calculateDiagnostics client j root s)) = cache s"
  using fetchAnalysisReport_keeps[of client s]
  by (auto simp: calculateDiagnostics_def split: prod.splits option.splits sum.splits)

lemma calculateDiagnostics_shown:
  "\<exists>msgs. shown (snd (calculateDiagnostics client j root s)) = shown s @ msgs
         \<and> ShowInputBox \<notin> set msgs"
proof -
  obtain msgs where m: "shown (snd (fetchAnalysisReport client s)) = shown s @ msgs"
    "ShowInputBox \<notin> set msgs"
    using fetchAnalysisReport_shown by blast
  show ?thesis
  proof (cases "fst (fetchAnalysisReport client s)")
    case None
    then show ?thesis using m
      by (auto simp: calculateDiagnostics_def split: prod.splits option.splits)
  next
    case (Some occs)
    then have "shown (snd (calculateDiagnostics client j root s)) = shown s @ msgs
      \<or> shown (snd (calculateDiagnostics client j root s)) =
        shown s @ (msgs @ [ShowInformationMessage ''Successfully fetched issues from deepsource.io''])"
      using m by (auto simp: calculateDiagnostics_def split: prod.splits option.splits sum.splits)
    moreover have "ShowInputBox \<notin> set (msgs @ [ShowInformationMessage ''Successfully fetched issues from deepsource.io''])"
      using m by simp
    ultimately show ?thesis using m(2) by blast
  qed
qed

lemma calculateDiagnostics_failed:
  "fst (fetchAnalysisReport client s) = None \<Longrightarrow>
   calculateDiagnostics client j root s = (Inr False, snd (fetchAnalysisReport client s))"
  by (auto simp: calculateDiagnostics_def split: prod.splits option.splits)

lemma getAnalysisReport_keeps_collection:
  "diagnosticCollection (getAnalysisReport client j root pat s) = diagnosticCollection s"
proof -
  have k: "\<And>t. diagnosticCollection (snd (calculateDiagnostics client j root t)) = diagnosticCollection t"
    by (rule calculateDiagnostics_keeps)
  show ?thesis
    unfolding getAnalysisReport_def Let_def
    by (simp add: k case_prod_beta split: option.splits sum.splits)
qed


lemma getAnalysisReport_no_prompt:
  "deepSource s \<noteq> None \<Longrightarrow>
   \<exists>msgs. shown (getAnalysisReport client j root pat s) = shown s @ msgs
         \<and> ShowInputBox \<notin> set msgs"
  using calculateDiagnostics_shown[of client j root s]
  by (simp add: getAnalysisReport_def)

lemma getAnalysisReport_keeps_handle:
  "deepSource s \<noteq> None \<Longrightarrow> deepSource (getAnalysisReport client j root pat s) = deepSource s"
  by (simp add: getAnalysisReport_def calculateDiagnostics_keeps)

lemma onDidChangeActiveTextEditor_length:
  "length (diagnosticCollection (onDidChangeActiveTextEditor editor s)) \<le>
   max 1 (length (diagnosticCollection s))"
  by (simp add: onDidChangeActiveTextEditor_def Let_def map_set_def split: option.splits)

lemma handleEvent_at_most_one:
  assumes "length (diagnosticCollection s) \<le> 1"
  shows "length (diagnosticCollection (handleEvent j root ev s)) \<le> 1"
proof (cases ev)
  case (CommandGetAnalysisReport pat client)
  with assms show ?thesis
    by (simp add: getAnalysisReport_keeps_collection)
next
  case (ActiveTextEditorChanged editor)
  with assms show ?thesis
    using onDidChangeActiveTextEditor_length[of editor s]
    by simp
qed

lemma runEvents_at_most_one:
  "length (diagnosticCollection s) \<le> 1 \<Longrightarrow>
   length (diagnosticCollection (runEvents j root evs s)) \<le> 1"
proof (induction evs arbitrary: s)
  case Nil
  then show ?case by simp
next
  case (Cons ev evs)
  from Cons.prems have "length (diagnosticCollection (handleEvent j root ev s)) \<le> 1"
    by (rule handleEvent_at_most_one)
  then show ?case
    using Cons.IH by simp
qed

subsection \<open>Changing the active editor\<close>

text \<open>
  C7. An event without an editor leaves the session as it is. An event with an editor
  leaves in the diagnostic collection exactly the entry that the diagnostic map holds
  for the file of the editor, under the editor's URI, and nothing when the map has no
  such entry; whatever was shown before is gone, and the rest of the session is
  unchanged. From activation on, whatever events arrive, the collection never shows
  more than one file.
\<close>

theorem onDidChangeActiveTextEditor_display:
  "onDidChangeActiveTextEditor None s = s
   \<and> diagnosticCollection (onDidChangeActiveTextEditor (Some e) s) =
       (case map_get (diagnosticsInFile s) (fsPath (document_uri e)) of
          None \<Rightarrow> []
        | Some ds \<Rightarrow> [(document_uri e, ds)])
   \<and> (onDidChangeActiveTextEditor (Some e) s)\<lparr>diagnosticCollection := []\<rparr> =
       s\<lparr>diagnosticCollection := []\<rparr>
   \<and> (case activate workspace gitRepo storedCache fs0 of
        Inl err \<Rightarrow> True
      | Inr s0 \<Rightarrow> length (diagnosticCollection (runEvents path_join workspaceDirPath events s0)) \<le> 1)"
proof -
  have a: "onDidChangeActiveTextEditor None s = s"
    by (simp add: onDidChangeActiveTextEditor_def)
  have b: "diagnosticCollection (onDidChangeActiveTextEditor (Some e) s) =
       (case map_get (diagnosticsInFile s) (fsPath (document_uri e)) of
          None \<Rightarrow> []
        | Some ds \<Rightarrow> [(document_uri e, ds)])"
    by (simp add: onDidChangeActiveTextEditor_def Let_def map_has_def map_set_def
        split: option.splits)
  have c: "(onDidChangeActiveTextEditor (Some e) s)\<lparr>diagnosticCollection := []\<rparr> =
       s\<lparr>diagnosticCollection := []\<rparr>"
    by (simp add: onDidChangeActiveTextEditor_def Let_def)
  have d: "(case activate workspace gitRepo storedCache fs0 of
        Inl err \<Rightarrow> True
      | Inr s0 \<Rightarrow> length (diagnosticCollection (runEvents path_join workspaceDirPath events s0)) \<le> 1)"
  proof (cases "activate workspace gitRepo storedCache fs0")
    case (Inl err)
    then show ?thesis by simp
  next
    case (Inr s0)
    then have "diagnosticCollection s0 = []"
      by (auto simp: activate_def split: option.splits if_splits)
    then have "length (diagnosticCollection (runEvents path_join workspaceDirPath events s0)) \<le> 1"
      by (intro runEvents_at_most_one) simp
    with Inr show ?thesis by simp
  qed
  from a b c d show ?thesis by blast
qed

subsection \<open>A fetch that fails\<close>

text \<open>
  C8. When \<open>fetchAnalysisReport\<close> returns no occurrences, \<open>calculateDiagnostics\<close>
  reports failure and the session's diagnostic map is what it was. Without a client
  handle, an account name or a repository name the fetch returns nothing and changes
  nothing, whatever the service would answer. And a command invocation against a
  service that returns no data leaves the diagnostic map as it was.
\<close>

theorem calculateDiagnostics_failed_fetch:
  "(fst (fetchAnalysisReport client s) = None \<longrightarrow>
      fst (calculateDiagnostics client path_join workspaceDirPath s) = Inr False
      \<and> diagnosticsInFile (snd (calculateDiagnostics client path_join workspaceDirPath s)) =
          diagnosticsInFile s)
   \<and> (deepSource s = None \<or> userName s = None \<or> userName s = Some []
        \<or> repoName s = None \<or> repoName s = Some [] \<longrightarrow>
      fetchAnalysisReport client s = (None, s))
   \<and> ((\<forall>token repo user. client token repo user = None) \<longrightarrow>
      diagnosticsInFile (getAnalysisReport client path_join workspaceDirPath pat s) =
        diagnosticsInFile s)"
proof -
  have a: "fst (fetchAnalysisReport client s) = None \<longrightarrow>
      fst (calculateDiagnostics client path_join workspaceDirPath s) = Inr False
      \<and> diagnosticsInFile (snd (calculateDiagnostics client path_join workspaceDirPath s)) =
          diagnosticsInFile s"
    by (simp add: calculateDiagnostics_failed fetchAnalysisReport_keeps)
  have b: "deepSource s = None \<or> userName s = None \<or> userName s = Some []
        \<or> repoName s = None \<or> repoName s = Some [] \<longrightarrow>
      fetchAnalysisReport client s = (None, s)"
    by (auto simp: fetchAnalysisReport_def split: option.splits)
  have c: "(\<forall>token repo user. client token repo user = None) \<longrightarrow>
      diagnosticsInFile (getAnalysisReport client path_join workspaceDirPath pat s) =
        diagnosticsInFile s"
  proof
    assume none: "\<forall>token repo user. client token repo user = None"
    have f: "\<And>t. fst (fetchAnalysisReport client t) = None"
      using none by (simp add: fetchAnalysisReport_def split: option.splits)
    have k: "\<And>t. diagnosticsInFile (snd (calculateDiagnostics client path_join workspaceDirPath t)) =
        diagnosticsInFile t"
      by (simp add: calculateDiagnostics_failed[OF f] fetchAnalysisReport_keeps)
    show "diagnosticsInFile (getAnalysisReport client path_join workspaceDirPath pat s) =
        diagnosticsInFile s"
      unfolding getAnalysisReport_def Let_def
      by (simp add: k case_prod_beta split: option.splits sum.splits)
  qed
  from a b c show ?thesis by blast
qed


text \<open>
  The three parts at a session that holds diagnostics for \<open>/repo/a.py\<close>.
\<close>

theorem calculateDiagnostics_failed_fetch_witness:
  "fst (fetchAnalysisReport (\<lambda>token repo user. None)
          (freshSession\<lparr>deepSource := Some ''bad'',
                         diagnosticsInFile := [(''/repo/a.py'', [unusedImportDiagnostic])]\<rparr>)) = None
   \<and> fst (calculateDiagnostics (\<lambda>token repo user. None) posix_join ''/repo''
          (freshSession\<lparr>deepSource := Some ''bad'',
                         diagnosticsInFile := [(''/repo/a.py'', [unusedImportDiagnostic])]\<rparr>)) = Inr False
   \<and> diagnosticsInFile (snd (calculateDiagnostics (\<lambda>token repo user. None) posix_join ''/repo''
          (freshSession\<lparr>deepSource := Some ''bad'',
                         diagnosticsInFile := [(''/repo/a.py'', [unusedImportDiagnostic])]\<rparr>))) =
       [(''/repo/a.py'', [unusedImportDiagnostic])]
   \<and> fetchAnalysisReport tokenChecker
         (freshSession\<lparr>diagnosticsInFile := [(''/repo/a.py'', [unusedImportDiagnostic])]\<rparr>) =
       (None, freshSession\<lparr>diagnosticsInFile := [(''/repo/a.py'', [unusedImportDiagnostic])]\<rparr>)
   \<and> diagnosticsInFile (getAnalysisReport (\<lambda>token repo user. None) posix_join ''/repo'' (Some ''bad'')
          (freshSession\<lparr>diagnosticsInFile := [(''/repo/a.py'', [unusedImportDiagnostic])]\<rparr>)) =
       [(''/repo/a.py'', [unusedImportDiagnostic])]"
  using calculateDiagnostics_failed_fetch
    [where client = "\<lambda>token repo user. None" and path_join = posix_join
       and workspaceDirPath = "''/repo''"
       and s = "freshSession\<lparr>deepSource := Some ''bad'',
                  diagnosticsInFile := [(''/repo/a.py'', [unusedImportDiagnostic])]\<rparr>"]
    calculateDiagnostics_failed_fetch
    [where client = tokenChecker
       and s = "freshSession\<lparr>diagnosticsInFile := [(''/repo/a.py'', [unusedImportDiagnostic])]\<rparr>"]
    calculateDiagnostics_failed_fetch
    [where client = "\<lambda>token repo user. None" and path_join = posix_join
       and workspaceDirPath = "''/repo''" and pat = "Some ''bad''"
       and s = "freshSession\<lparr>diagnosticsInFile := [(''/repo/a.py'', [unusedImportDiagnostic])]\<rparr>"]
  by (simp add: fetchAnalysisReport_def)

subsection \<open>A freshly entered token that the service rejects\<close>

text \<open>
  C3. In a session without a client handle and without a stored token, let the user
  enter a token for which the service returns no data. Then the token is not in the
  credential store afterwards, the input box and, last, the message
  \<open>Incorrect personal access token.\<close> were shown, and the client handle built from the
  rejected token stays. So the next invocation, whatever the service and the user would
  answer, shows no input box and keeps that handle.
\<close>

theorem getAnalysisReport_rejected_token:
  assumes "deepSource s = None"
    and "\<not> cache_has (cache s) ''personal-access-token''"
    and "token \<noteq> []"
    and "\<forall>repo user. client token repo user = None"
  shows "\<not> cache_has (cache (getAnalysisReport client path_join workspaceDirPath (Some token) s))
            ''personal-access-token''
    \<and> (\<exists>msgs. shown (getAnalysisReport client path_join workspaceDirPath (Some token) s) =
          shown s @ [ShowInputBox] @ msgs @ [ShowErrorMessage ''Incorrect personal access token.'']
          \<and> ShowInputBox \<notin> set msgs)
    \<and> deepSource (getAnalysisReport client path_join workspaceDirPath (Some token) s) = Some token
    \<and> (\<exists>msgs. shown (getAnalysisReport later_client path_join workspaceDirPath later_pat
                  (getAnalysisReport client path_join workspaceDirPath (Some token) s)) =
          shown (getAnalysisReport client path_join workspaceDirPath (Some token) s) @ msgs
          \<and> ShowInputBox \<notin> set msgs)
    \<and> deepSource (getAnalysisReport later_client path_join workspaceDirPath later_pat
         (getAnalysisReport client path_join workspaceDirPath (Some token) s)) = Some token"
proof -
  let ?s3 = "s\<lparr>shown := shown s @ [ShowInputBox], deepSource := Some token,
               cache := cache_put (cache s) ''personal-access-token'' token\<rparr>"
  let ?s4 = "snd (fetchAnalysisReport client ?s3)"
  let ?s1 = "getAnalysisReport client path_join workspaceDirPath (Some token) s"
  have fail: "fst (fetchAnalysisReport client ?s3) = None"
    using assms(4) by (simp add: fetchAnalysisReport_def split: option.splits)
  have calc: "calculateDiagnostics client path_join workspaceDirPath ?s3 = (Inr False, ?s4)"
    by (rule calculateDiagnostics_failed[OF fail])
  have s1: "?s1 = ?s4\<lparr>cache := cache_forget (cache ?s4) ''personal-access-token'',
                       shown := shown ?s4 @ [ShowErrorMessage ''Incorrect personal access token.'']\<rparr>"
    using assms(1,2,3) by (simp add: getAnalysisReport_def Let_def calc)
  have a: "\<not> cache_has (cache ?s1) ''personal-access-token''"
    by (simp add: s1 cache_has_def cache_forget_def map_has_def map_get_def delete_conv')
  obtain msgs where msgs: "shown ?s4 = shown ?s3 @ msgs" "ShowInputBox \<notin> set msgs"
    using fetchAnalysisReport_shown[of client ?s3] by blast
  have b: "\<exists>msgs. shown ?s1 =
          shown s @ [ShowInputBox] @ msgs @ [ShowErrorMessage ''Incorrect personal access token.'']
          \<and> ShowInputBox \<notin> set msgs"
    using msgs by (simp add: s1)
  have c: "deepSource ?s1 = Some token"
    by (simp add: s1 fetchAnalysisReport_keeps)
  then have ne: "deepSource ?s1 \<noteq> None" by simp
  have d: "\<exists>msgs. shown (getAnalysisReport later_client path_join workspaceDirPath later_pat ?s1) =
          shown ?s1 @ msgs \<and> ShowInputBox \<notin> set msgs"
    by (rule getAnalysisReport_no_prompt[OF ne])
  have e: "deepSource (getAnalysisReport later_client path_join workspaceDirPath later_pat ?s1) = Some token"
    using getAnalysisReport_keeps_handle[OF ne, of later_client path_join workspaceDirPath later_pat] c
    by simp
  from a b c d e show ?thesis by blast
qed


text \<open>
  The run in the workspace \<open>/repo\<close>: the user enters \<open>bad\<close>, then invokes the command
  again meaning to enter \<open>good\<close>.
\<close>

theorem getAnalysisReport_rejected_token_witness:
  "activate (Some ''/repo'')
      \<lparr>isRepo = True, remote_origin_url = Some ''https://github.com/user/repo.git''\<rparr>
      [(''personal-access-token'', ''old'')] repoFs = Inr freshSession
   \<and> shown (getAnalysisReport tokenChecker posix_join ''/repo'' (Some ''bad'') freshSession) =
       [ShowInputBox,
        ShowErrorMessage
          (''Unable to fetch data for repository: repo, under account '' @ [CHR 0x22] @ ''user'' @
           [CHR 0x22] @ ''.'' @ [CHR 0x0A] @
           ''Please ensure analysis is activated on https://deepsource.com.''),
        ShowErrorMessage ''Incorrect personal access token.'']
   \<and> \<not> cache_has (cache (getAnalysisReport tokenChecker posix_join ''/repo'' (Some ''bad'') freshSession))
         ''personal-access-token''
   \<and> deepSource (getAnalysisReport tokenChecker posix_join ''/repo'' (Some ''bad'') freshSession) =
       Some ''bad''
   \<and> shown (getAnalysisReport tokenChecker posix_join ''/repo'' (Some ''good'')
         (getAnalysisReport tokenChecker posix_join ''/repo'' (Some ''bad'') freshSession)) =
       [ShowInputBox,
        ShowErrorMessage
          (''Unable to fetch data for repository: repo, under account '' @ [CHR 0x22] @ ''user'' @
           [CHR 0x22] @ ''.'' @ [CHR 0x0A] @
           ''Please ensure analysis is activated on https://deepsource.com.''),
        ShowErrorMessage ''Incorrect personal access token.'',
        ShowErrorMessage
          (''Unable to fetch data for repository: repo, under account '' @ [CHR 0x22] @ ''user'' @
           [CHR 0x22] @ ''.'' @ [CHR 0x0A] @
           ''Please ensure analysis is activated on https://deepsource.com.'')]
   \<and> deepSource (getAnalysisReport tokenChecker posix_join ''/repo'' (Some ''good'')
         (getAnalysisReport tokenChecker posix_join ''/repo'' (Some ''bad'') freshSession)) =
       Some ''bad''
   \<and> diagnosticsInFile (getAnalysisReport tokenChecker posix_join ''/repo'' (Some ''good'')
         (getAnalysisReport tokenChecker posix_join ''/repo'' (Some ''bad'') freshSession)) = []"
  using getAnalysisReport_rejected_token
    [where s = freshSession and token = "''bad''" and client = tokenChecker
       and path_join = posix_join and workspaceDirPath = "''/repo''"
       and later_client = tokenChecker and later_pat = "Some ''good''"]
  by (simp add: activate_def getRepoAndUserName_def matchAt_def isWordOrHyphen_def
      cache_flush_def getAnalysisReport_def calculateDiagnostics_def fetchAnalysisReport_def
      cache_has_def cache_put_def cache_forget_def map_has_def map_get_def map_set_def Let_def)

end
